theory Spec2Isabelle
  imports Complex_Main
begin

section \<open>Retry envelope (src/cli/src/execution/retry.ts)\<close>

text \<open>
  JavaScript numbers are idealised as reals; the attempt counter is an integer.
  \<open>pow2 e\<close> is \<open>Math.pow(2, e)\<close> at an integer exponent.  The value drawn from
  \<open>Math.random()\<close> is the explicit argument \<open>rnd\<close>, a real in the half-open unit interval.
\<close>

definition pow2 :: "int \<Rightarrow> real" where
  "pow2 e = (if 0 \<le> e then 2 ^ nat e else 1 / 2 ^ nat (- e))"

definition calculateBackoffDelay :: "int \<Rightarrow> real \<Rightarrow> real \<Rightarrow> bool \<Rightarrow> real \<Rightarrow> int" where
  "calculateBackoffDelay attempt baseDelayMs maxDelayMs useJitter rnd =
     (let delay = baseDelayMs * pow2 (attempt - 1);
          delay = min delay maxDelayMs;
          delay = (if useJitter then delay + delay * 0.25 * rnd else delay)
      in \<lfloor>delay\<rfloor>)"

text \<open>The capped exponential term \<open>min(maxDelay, baseDelay * 2^(k-1))\<close> of the specification.\<close>

definition capped :: "int \<Rightarrow> real \<Rightarrow> real \<Rightarrow> real" where
  "capped k baseDelayMs maxDelayMs = min maxDelayMs (baseDelayMs * 2 ^ nat (k - 1))"

text \<open>
  A thrown JavaScript value is either an \<open>Error\<close> object, kept by its message, or any other
  value, kept by its \<open>String(...)\<close> rendering.  \<open>toError\<close> is the message of
  \<open>error instanceof Error ? error : new Error(String(error))\<close>.
\<close>

datatype thrown = Error string | NonError string

fun toError :: "thrown \<Rightarrow> string" where
  "toError (Error m) = m"
| "toError (NonError s) = s"

text \<open>
  What \<open>withRetry\<close> does to the outside world, in order: invocations of the wrapped
  operation, logger calls, callback calls and sleeps.
\<close>

datatype event =
    Call int
  | LogWarn int string
  | OnRetry int string real
  | LogDebug real
  | Sleep real

text \<open>
  The options object.  An absent optional field is \<open>None\<close>.  A callback returns
  \<open>Some t\<close> when it throws \<open>t\<close> itself.
\<close>

record RetryOptions =
  maxRetries :: int
  retryDelay :: real
  onRetry :: "(int \<Rightarrow> string \<Rightarrow> real \<Rightarrow> thrown option) option"
  exponentialBackoff :: "bool option"
  maxDelay :: "real option"
  jitter :: "bool option"

definition baseDelayMs_of :: "RetryOptions \<Rightarrow> real" where
  "baseDelayMs_of opts = retryDelay opts * 1000"

definition maxDelayMs_of :: "RetryOptions \<Rightarrow> real" where
  "maxDelayMs_of opts = (case maxDelay opts of None \<Rightarrow> 60 | Some d \<Rightarrow> d) * 1000"

text \<open>The \<open>delayMs\<close> computed in the catch block of attempt \<open>attempt\<close>.\<close>

definition delayMs_of :: "RetryOptions \<Rightarrow> (int \<Rightarrow> real) \<Rightarrow> int \<Rightarrow> real" where
  "delayMs_of opts rnd attempt =
     (if (case exponentialBackoff opts of None \<Rightarrow> True | Some b \<Rightarrow> b)
      then real_of_int (calculateBackoffDelay attempt (baseDelayMs_of opts) (maxDelayMs_of opts)
             (case jitter opts of None \<Rightarrow> True | Some b \<Rightarrow> b) (rnd attempt))
      else baseDelayMs_of opts)"

text \<open>
  The \<open>for\<close> loop of \<open>withRetry\<close>.  \<open>fn k\<close> is the outcome of the invocation made in
  attempt \<open>k\<close> (\<open>Inl\<close> a thrown value, \<open>Inr\<close> the result); \<open>rnd k\<close> is the random number
  drawn in attempt \<open>k\<close>.  The loop returns what the promise settles to and the events.
\<close>

function withRetry_loop ::
  "(int \<Rightarrow> thrown + 'a) \<Rightarrow> (int \<Rightarrow> real) \<Rightarrow> RetryOptions \<Rightarrow> int \<Rightarrow> string option \<Rightarrow> event list
     \<Rightarrow> (thrown + 'a) \<times> event list" where
  "withRetry_loop fn rnd opts attempt lastError evs =
     (if attempt \<le> maxRetries opts then
        (case fn attempt of
           Inr v \<Rightarrow> (Inr v, evs @ [Call attempt])
         | Inl error \<Rightarrow>
             (let lastError' = toError error in
              if attempt < maxRetries opts then
                (let errorMsg = lastError';
                     delayMs = delayMs_of opts rnd attempt;
                     evs1 = evs @ [Call attempt, LogWarn attempt errorMsg]
                 in case onRetry opts of
                      None \<Rightarrow>
                        withRetry_loop fn rnd opts (attempt + 1) (Some lastError')
                          (evs1 @ [LogDebug delayMs, Sleep delayMs])
                    | Some cb \<Rightarrow>
                        (case cb attempt errorMsg delayMs of
                           Some t \<Rightarrow> (Inl t, evs1 @ [OnRetry attempt errorMsg delayMs])
                         | None \<Rightarrow>
                             withRetry_loop fn rnd opts (attempt + 1) (Some lastError')
                               (evs1 @ [OnRetry attempt errorMsg delayMs, LogDebug delayMs, Sleep delayMs])))
              else withRetry_loop fn rnd opts (attempt + 1) (Some lastError') (evs @ [Call attempt])))
      else (Inl (Error (case lastError of Some m \<Rightarrow> m | None \<Rightarrow> ''All retry attempts failed'')), evs))"
  by pat_completeness auto
termination
  by (relation "measure (\<lambda>(fn, rnd, opts, attempt, lastError, evs). nat (maxRetries opts + 1 - attempt))") auto

declare withRetry_loop.simps [simp del]

definition withRetry ::
  "(int \<Rightarrow> thrown + 'a) \<Rightarrow> (int \<Rightarrow> real) \<Rightarrow> RetryOptions \<Rightarrow> (thrown + 'a) \<times> event list" where
  "withRetry fn rnd opts = withRetry_loop fn rnd opts 1 None []"

text \<open>
  The events the specification expects of one failed attempt that is not the last:
  the invocation, the warning, the callback when there is one, and the sleep.
\<close>

definition failed_attempt_events :: "(int \<Rightarrow> thrown + 'a) \<Rightarrow> (int \<Rightarrow> real) \<Rightarrow> RetryOptions \<Rightarrow> int \<Rightarrow> event list" where
  "failed_attempt_events fn rnd opts k =
     [Call k, LogWarn k (toError (projl (fn k)))]
     @ (case onRetry opts of None \<Rightarrow> [] | Some cb \<Rightarrow> [OnRetry k (toError (projl (fn k))) (delayMs_of opts rnd k)])
     @ [LogDebug (delayMs_of opts rnd k), Sleep (delayMs_of opts rnd k)]"

text \<open>The attempt numbers of the invocations in an event list.\<close>

fun calls :: "event list \<Rightarrow> int list" where
  "calls [] = []"
| "calls (Call k # es) = k # calls es"
| "calls (e # es) = calls es"

text \<open>An event with the error message blanked: what remains is the schedule.\<close>

fun shape :: "event \<Rightarrow> event" where
  "shape (LogWarn k m) = LogWarn k []"
| "shape (OnRetry k m d) = OnRetry k [] d"
| "shape e = e"

text \<open>The callback, when there is one, never throws.\<close>

definition onRetry_quiet :: "RetryOptions \<Rightarrow> bool" where
  "onRetry_quiet opts = (case onRetry opts of None \<Rightarrow> True | Some cb \<Rightarrow> \<forall>k m d. cb k m d = None)"

subsection \<open>The advisory classifier \<open>isRetryableError\<close>\<close>

text \<open>
  Every pattern of \<open>retryablePatterns\<close> is a literal, so \<open>pattern.test(error)\<close> is a
  substring test, on the lower-cased text for the patterns with the \<open>i\<close> flag.
\<close>

fun starts_with :: "string \<Rightarrow> string \<Rightarrow> bool" where
  "starts_with [] s = True"
| "starts_with (p # ps) [] = False"
| "starts_with (p # ps) (c # cs) = (p = c \<and> starts_with ps cs)"

fun contains :: "string \<Rightarrow> string \<Rightarrow> bool" where
  "contains p [] = starts_with p []"
| "contains p (c # cs) = (starts_with p (c # cs) \<or> contains p cs)"

definition toLowerCase :: "char \<Rightarrow> char" where
  "toLowerCase c =
     (case map_of (zip ''ABCDEFGHIJKLMNOPQRSTUVWXYZ'' ''abcdefghijklmnopqrstuvwxyz'') c of
        Some l \<Rightarrow> l | None \<Rightarrow> c)"

text \<open>A pattern with its \<open>i\<close> flag.\<close>

definition retryablePatterns :: "(string \<times> bool) list" where
  "retryablePatterns =
     [(''rate limit'', True), (''rate_limit'', True), (''hit your limit'', True), (''quota'', True),
      (''too many requests'', True), (''429'', False), (''timeout'', True), (''network'', True),
      (''connection'', True), (''ECONNRESET'', False), (''ETIMEDOUT'', False), (''ENOTFOUND'', False),
      (''overloaded'', True)]"

definition pattern_test :: "string \<times> bool \<Rightarrow> string \<Rightarrow> bool" where
  "pattern_test p s =
     (if snd p then contains (map toLowerCase (fst p)) (map toLowerCase s) else contains (fst p) s)"

definition isRetryableError :: "string \<Rightarrow> bool" where
  "isRetryableError error = list_ex (\<lambda>p. pattern_test p error) retryablePatterns"

text \<open>Concrete inputs: an operation that always fails, with a quiet callback and no jitter.\<close>

definition example_opts :: RetryOptions where
  "example_opts =
     \<lparr>maxRetries = 3, retryDelay = 1, onRetry = Some (\<lambda>k m d. None),
      exponentialBackoff = None, maxDelay = None, jitter = Some False\<rparr>"

definition always_fails :: "string \<Rightarrow> int \<Rightarrow> thrown + unit" where
  "always_fails m k = Inl (Error m)"

definition no_random :: "int \<Rightarrow> real" where
  "no_random k = 0"

section \<open>Markdown task source (src/cli/src/tasks/markdown.ts)\<close>

abbreviation LF :: char where "LF \<equiv> CHR 0x0A"
abbreviation CR :: char where "CR \<equiv> CHR 0x0D"

text \<open>\<open>s.replace(/\r\n/g, "\n")\<close> and \<open>s.replace(/\r/g, "\n")\<close>.\<close>

fun replace_crlf :: "string \<Rightarrow> string" where
  "replace_crlf (c1 # c2 # cs) =
     (if c1 = CR \<and> c2 = LF then LF # replace_crlf cs else c1 # replace_crlf (c2 # cs))"
| "replace_crlf cs = cs"

definition replace_cr :: "string \<Rightarrow> string" where
  "replace_cr s = map (\<lambda>c. if c = CR then LF else c) s"

text \<open>\<open>s.split("\n")\<close>: always at least one piece, the empty string gives one empty piece.\<close>

fun split_nl :: "string \<Rightarrow> string list" where
  "split_nl [] = [[]]"
| "split_nl (c # cs) =
     (if c = LF then [] # split_nl cs
      else (case split_nl cs of l # ls \<Rightarrow> (c # l) # ls | [] \<Rightarrow> [[c]]))"

text \<open>\<open>lines.join("\n")\<close>.\<close>

fun join_nl :: "string list \<Rightarrow> string" where
  "join_nl [] = []"
| "join_nl [l] = l"
| "join_nl (l # ls) = l @ LF # join_nl ls"

text \<open>
  A character stands for the code unit of the same number, U+0000 to U+00FF.  Of the white
  space and line terminators of the language, seven lie in that range: tab, line feed,
  vertical tab, form feed, carriage return, space and the no-break space U+00A0.

  \<open>Number.parseInt(id, 10)\<close>: leading white space is skipped, one sign is read, then the
  longest run of decimal digits; no digit gives \<open>NaN\<close>, here \<open>None\<close>.
\<close>

definition isWhiteSpace :: "char \<Rightarrow> bool" where
  "isWhiteSpace c = (c \<in> set [CHR 0x09, CHR 0x0A, CHR 0x0B, CHR 0x0C, CHR 0x0D, CHR 0x20, CHR 0xA0])"

definition digit_value :: "char \<Rightarrow> nat option" where
  "digit_value c = map_of (zip ''0123456789'' [0, 1, 2, 3, 4, 5, 6, 7, 8, 9]) c"

definition isDigit :: "char \<Rightarrow> bool" where
  "isDigit c = (digit_value c \<noteq> None)"

definition digits_value :: "string \<Rightarrow> nat" where
  "digits_value ds = foldl (\<lambda>a c. 10 * a + (case digit_value c of Some d \<Rightarrow> d | None \<Rightarrow> 0)) 0 ds"

definition parseInt10 :: "string \<Rightarrow> int option" where
  "parseInt10 s =
     (let s1 = dropWhile isWhiteSpace s;
          sign = (case s1 of c # r \<Rightarrow> if c = CHR ''-'' then - 1 else 1 | [] \<Rightarrow> (1::int));
          s2 = (case s1 of c # r \<Rightarrow> if c = CHR ''-'' \<or> c = CHR ''+'' then r else s1 | [] \<Rightarrow> s1);
          ds = takeWhile isDigit s2
      in if ds = [] then None else Some (sign * int (digits_value ds)))"

text \<open>\<open>String(n)\<close> for a natural number.\<close>

fun String_of_nat :: "nat \<Rightarrow> string" where
  "String_of_nat n =
     (if n < 10 then [''0123456789'' ! n]
      else String_of_nat (n div 10) @ [''0123456789'' ! (n mod 10)])"

declare String_of_nat.simps [simp del]

text \<open>\<open>s.trim()\<close>.\<close>

definition trim :: "string \<Rightarrow> string" where
  "trim s = rev (dropWhile isWhiteSpace (rev (dropWhile isWhiteSpace s)))"

text \<open>
  The three regular expressions.  \<open>incompleteMatch\<close> is \<open>line.match(/^- \[ \] (.+)$/)\<close>, giving
  the captured group; \<open>completedTest\<close> is \<open>/^- \[x\] /i.test(line)\<close>; \<open>replaceIncomplete\<close> is
  \<open>line.replace(/^- \[ \] /, "- [x] ")\<close>.
\<close>

definition incompleteMatch :: "string \<Rightarrow> string option" where
  "incompleteMatch line =
     (if starts_with ''- [ ] '' line \<and> drop 6 line \<noteq> []
         \<and> list_all (\<lambda>c. c \<noteq> LF \<and> c \<noteq> CR) (drop 6 line)
      then Some (drop 6 line) else None)"

definition completedTest :: "string \<Rightarrow> bool" where
  "completedTest line = starts_with ''- [x] '' (map toLowerCase (take 6 line))"

definition replaceIncomplete :: "string \<Rightarrow> string" where
  "replaceIncomplete line = (if starts_with ''- [ ] '' line then ''- [x] '' @ drop 6 line else line)"

record Task =
  task_id :: string
  title :: string
  completed :: bool

record CachedContent =
  content :: string
  lines :: "string list"
  incompleteTasks :: "Task list"
  remainingCount :: nat
  completedCount :: nat
  fileMtime :: nat

text \<open>The file at \<open>filePath\<close> as the file system holds it, when it exists.\<close>

record fsfile =
  data :: string
  mtimeMs :: nat

datatype fs_error = ENOENT

record MarkdownTaskSource =
  disk_file :: "fsfile option"
  cache :: "CachedContent option"

definition readFileNormalized :: "string \<Rightarrow> string" where
  "readFileNormalized raw = replace_cr (replace_crlf raw)"

definition getFileMtime :: "MarkdownTaskSource \<Rightarrow> nat" where
  "getFileMtime s = (case disk_file s of None \<Rightarrow> 0 | Some f \<Rightarrow> mtimeMs f)"

text \<open>The \<open>for\<close> loop of \<open>loadCache\<close> from index \<open>i\<close> on, over the lines still to visit.\<close>

fun scan_lines :: "nat \<Rightarrow> string list \<Rightarrow> Task list \<times> nat \<times> nat \<Rightarrow> Task list \<times> nat \<times> nat" where
  "scan_lines i [] acc = acc"
| "scan_lines i (line # rest) (tasks, remaining, done) =
     (let (tasks', remaining') =
            (case incompleteMatch line of
               Some g \<Rightarrow>
                 (tasks @ [\<lparr>task_id = String_of_nat (i + 1), title = trim g, completed = False\<rparr>],
                  remaining + 1)
             | None \<Rightarrow> (tasks, remaining));
          done' = (if completedTest line then done + 1 else done)
      in scan_lines (i + 1) rest (tasks', remaining', done'))"

definition parse_file :: "fsfile \<Rightarrow> CachedContent" where
  "parse_file f =
     (let content = readFileNormalized (data f);
          lines = split_nl content;
          (incompleteTasks, remainingCount, completedCount) = scan_lines 0 lines ([], 0, 0)
      in \<lparr>content = content, lines = lines, incompleteTasks = incompleteTasks,
          remainingCount = remainingCount, completedCount = completedCount,
          fileMtime = mtimeMs f\<rparr>)"

definition loadCache :: "MarkdownTaskSource \<Rightarrow> fs_error + CachedContent \<times> MarkdownTaskSource" where
  "loadCache s =
     (case disk_file s of
        None \<Rightarrow> Inl ENOENT
      | Some f \<Rightarrow> (let c = parse_file f in Inr (c, s\<lparr>cache := Some c\<rparr>)))"

definition getCache :: "MarkdownTaskSource \<Rightarrow> fs_error + CachedContent \<times> MarkdownTaskSource" where
  "getCache s =
     (case cache s of
        None \<Rightarrow> loadCache s
      | Some c \<Rightarrow> if getFileMtime s \<noteq> fileMtime c then loadCache s else Inr (c, s))"

definition invalidateCache :: "MarkdownTaskSource \<Rightarrow> MarkdownTaskSource" where
  "invalidateCache s = s\<lparr>cache := None\<rparr>"

text \<open>
  \<open>markComplete(id)\<close>.  \<open>now\<close> is the modification time the file system stamps on the file
  when \<open>writeFileSync\<close> writes it.  The result pairs what the promise settles to with the
  state left behind.
\<close>

definition markComplete :: "nat \<Rightarrow> string \<Rightarrow> MarkdownTaskSource \<Rightarrow> (fs_error + unit) \<times> MarkdownTaskSource" where
  "markComplete now ident s0 =
     (let s = invalidateCache s0 in
      case disk_file s of
        None \<Rightarrow> (Inl ENOENT, s)
      | Some f \<Rightarrow>
          (let content = readFileNormalized (data f);
               lines = split_nl content
           in case parseInt10 ident of
                None \<Rightarrow> (Inr (), s)
              | Some n \<Rightarrow>
                  (let lineNumber = n - 1 in
                   if lineNumber \<ge> 0 \<and> lineNumber < int (length lines) then
                     (let lines' = lines[nat lineNumber := replaceIncomplete (lines ! nat lineNumber)];
                          s' = s\<lparr>disk_file := Some \<lparr>data = join_nl lines', mtimeMs = now\<rparr>\<rparr>
                      in (Inr (), invalidateCache s'))
                   else (Inr (), s))))"

definition countCompleted :: "MarkdownTaskSource \<Rightarrow> (fs_error + nat) \<times> MarkdownTaskSource" where
  "countCompleted s =
     (case getCache s of
        Inl e \<Rightarrow> (Inl e, s)
      | Inr (c, s') \<Rightarrow> (Inr (completedCount c), s'))"

definition countRemaining :: "MarkdownTaskSource \<Rightarrow> (fs_error + nat) \<times> MarkdownTaskSource" where
  "countRemaining s =
     (case getCache s of
        Inl e \<Rightarrow> (Inl e, s)
      | Inr (c, s') \<Rightarrow> (Inr (remainingCount c), s'))"

definition getAllTasks :: "MarkdownTaskSource \<Rightarrow> (fs_error + Task list) \<times> MarkdownTaskSource" where
  "getAllTasks s =
     (case getCache s of
        Inl e \<Rightarrow> (Inl e, s)
      | Inr (c, s') \<Rightarrow> (Inr (incompleteTasks c), s'))"

text \<open>A run of \<open>markComplete\<close> calls, each with the time of its write and its id.\<close>

fun markCompleteAll :: "(nat \<times> string) list \<Rightarrow> MarkdownTaskSource \<Rightarrow> MarkdownTaskSource" where
  "markCompleteAll [] s = s"
| "markCompleteAll ((now, ident) # rest) s = markCompleteAll rest (snd (markComplete now ident s))"

text \<open>
  A cache is fresh when it is absent, or carries another modification time than the file, or
  is what parsing the file gives.  A new task source has no cache.
\<close>

definition cache_fresh :: "MarkdownTaskSource \<Rightarrow> bool" where
  "cache_fresh s =
     (case cache s of
        None \<Rightarrow> True
      | Some c \<Rightarrow>
          if getFileMtime s = fileMtime c
          then (case disk_file s of None \<Rightarrow> False | Some f \<Rightarrow> c = parse_file f)
          else True)"

text \<open>The lines of a file as every operation reads them.\<close>

definition file_lines :: "fsfile \<Rightarrow> string list" where
  "file_lines f = split_nl (readFileNormalized (data f))"

definition example_prd :: MarkdownTaskSource where
  "example_prd =
     \<lparr>disk_file = Some \<lparr>data = ''# PRD'' @ [CR, LF] @ ''- [ ] one'' @ [LF] @ ''- [X] two'' @ [LF] @ ''- [ ] three'',
                     mtimeMs = 5\<rparr>,
      cache = None\<rparr>"

section \<open>The parallel orchestrator (src/ralphy.sh)\<close>

text \<open>
  The script runs under \<open>set -euo pipefail\<close>.  Every program it starts is a command put to
  the environment, which answers with an exit status (\<open>True\<close> for 0) and the text on standard
  output, and moves on to a new state of the world (repository, directories, the agents'
  work).  The environment is a parameter of every function below, so what is proved holds
  for any behaviour of git, of the engines and of the file system.  The commands are
  recorded in the order of their issue.

  A command that fails where \<open>errexit\<close> applies ends the shell that runs it; the model
  returns \<open>Exited\<close> there.  Builtins (\<open>cd\<close>, \<open>echo\<close>, redirections, \<open>mktemp\<close>) are taken to
  succeed, and a pipeline is the composition of its stages.
\<close>

datatype git_cmd =
    WorktreePrune
  | BranchDelete bool string
  | BranchCreate string string
  | WorktreeAdd string string
  | WorktreeRemove bool string
  | StatusPorcelain
  | RevListCount string
  | RevParseAbbrevHead
  | SymbolicRefHead
  | Checkout string
  | Merge string
  | MergeAbort
  | DiffUnmerged
  | PushUpstream string

text \<open>
  \<open>Git dir c\<close> is git run in \<open>dir\<close> (by \<open>cd\<close> or \<open>-C\<close>): \<open>BranchDelete True b\<close> is
  \<open>git branch -D b\<close> and \<open>BranchDelete False b\<close> is \<open>git branch -d b\<close>; \<open>WorktreeRemove True d\<close> is
  \<open>git worktree remove -f d\<close>; \<open>RevListCount base\<close> is \<open>git rev-list --count base..HEAD\<close>;
  \<open>Merge b\<close> is \<open>git merge --no-edit b\<close>; \<open>DiffUnmerged\<close> is
  \<open>git diff --name-only --diff-filter=U\<close>.  \<open>Engine e dir prompt\<close> is the command line the
  \<open>case "$AI_ENGINE"\<close> statement of \<open>run_parallel_agent\<close> selects for engine \<open>e\<close>, run in
  \<open>dir\<close>, and \<open>EngineResolve e dir prompt\<close> the one of the conflict resolution.  \<open>MarkMarkdown\<close> and
  \<open>MarkYaml\<close> are the \<open>sed -i.bak\<close> and \<open>yq -i\<close> edits of the task file, \<open>IssueClose\<close> is
  \<open>gh issue close\<close>, \<open>FindAgentDirs\<close> the \<open>find ... -name 'agent-*' -print -quit\<close> probe, and
  \<open>ListTasks\<close> and \<open>ListGroups\<close> the \<open>grep\<close>, \<open>yq\<close> and \<open>gh\<close> pipelines that list tasks and
  groups.
\<close>

datatype cmd =
    Git string git_cmd
  | TestDir string
  | Engine string string string
  | EngineResolve string string string
  | Cp string string
  | MkdirP string
  | Touch string
  | RmRf string
  | SleepFor string
  | PrCreate string string string string string bool
  | MarkMarkdown string string
  | MarkYaml string string
  | IssueClose string string
  | FindAgentDirs string
  | GlobAgentDirs string
  | ListTasks string string
  | ListGroups string

type_synonym 'w env = "cmd \<Rightarrow> 'w \<Rightarrow> (bool \<times> string) \<times> 'w"

datatype msg = Text string | BatchHeader int string int

text \<open>
  The temporary files of a batch, which \<open>mktemp\<close> names afresh for every agent: the status
  file, the output file and the log file of the agent with a given number.
\<close>

datatype tmpfile = StatusFile int | OutputFile int | LogFile int

text \<open>
  The state of a shell: the world, the commands issued so far, each with its exit status
  (\<open>True\<close> for 0), the lines of the temporary files, and what was printed.
\<close>

record 'w sh =
  world :: 'w
  trace :: "(cmd \<times> bool) list"
  files :: "tmpfile \<Rightarrow> string list"
  console :: "msg list"

definition exec :: "'w env \<Rightarrow> cmd \<Rightarrow> ('w, 'a) sh_scheme \<Rightarrow> (bool \<times> string) \<times> ('w, 'a) sh_scheme" where
  "exec E c s = (let (r, w) = E c (world s) in (r, s\<lparr>world := w, trace := trace s @ [(c, fst r)]\<rparr>))"

text \<open>\<open>echo line > path\<close>, \<open>echo line >> path\<close>, \<open>rm -f path\<close> on the script's temporary files.\<close>

definition fwrite :: "tmpfile \<Rightarrow> string \<Rightarrow> ('w, 'a) sh_scheme \<Rightarrow> ('w, 'a) sh_scheme" where
  "fwrite path line s = s\<lparr>files := (files s)(path := [line])\<rparr>"

definition fappend :: "tmpfile \<Rightarrow> string \<Rightarrow> ('w, 'a) sh_scheme \<Rightarrow> ('w, 'a) sh_scheme" where
  "fappend path line s = s\<lparr>files := (files s)(path := files s path @ [line])\<rparr>"

definition fremove :: "tmpfile \<Rightarrow> ('w, 'a) sh_scheme \<Rightarrow> ('w, 'a) sh_scheme" where
  "fremove path s = s\<lparr>files := (files s)(path := [])\<rparr>"

definition say :: "string \<Rightarrow> ('w, 'a) sh_scheme \<Rightarrow> ('w, 'a) sh_scheme" where
  "say line s = s\<lparr>console := console s @ [Text line]\<rparr>"

definition log_info :: "string \<Rightarrow> ('w, 'a) sh_scheme \<Rightarrow> ('w, 'a) sh_scheme" where
  "log_info m s = say (''[INFO] '' @ m) s"

definition log_warn :: "string \<Rightarrow> ('w, 'a) sh_scheme \<Rightarrow> ('w, 'a) sh_scheme" where
  "log_warn m s = say (''[WARN] '' @ m) s"

text \<open>How a shell that ran to its end differs from one that \<open>errexit\<close> ended.\<close>

datatype 'a exit = Returned 'a | Exited 'a

subsection \<open>Text helpers\<close>

definition show_int :: "int \<Rightarrow> string" where
  "show_int n = (if n < 0 then CHR ''-'' # String_of_nat (nat (- n)) else String_of_nat (nat n))"

text \<open>A command substitution drops the trailing newlines of what it captures.\<close>

definition chomp :: "string \<Rightarrow> string" where
  "chomp s = rev (dropWhile (\<lambda>c. c = LF) (rev s))"

text \<open>\<open>[[ "$x" =~ ^[0-9]+$ ]]\<close> and the value of such a text.\<close>

definition all_digits :: "string \<Rightarrow> bool" where
  "all_digits s = (s \<noteq> [] \<and> list_all isDigit s)"

definition sanitize_count :: "string \<Rightarrow> string" where
  "sanitize_count s = (if all_digits s then s else ''0'')"

text \<open>The fields of a line as \<open>awk\<close> splits it, and field \<open>k\<close> (empty when missing).\<close>

fun fields_from :: "string \<Rightarrow> string \<Rightarrow> string list" where
  "fields_from cur [] = (if cur = [] then [] else [cur])"
| "fields_from cur (c # cs) =
     (if c = CHR '' '' \<or> c = CHR 0x09
      then (if cur = [] then fields_from [] cs else cur # fields_from [] cs)
      else fields_from (cur @ [c]) cs)"

definition awk_field :: "nat \<Rightarrow> string \<Rightarrow> string" where
  "awk_field k line = (let fs = fields_from [] line in if k < length fs then fs ! k else [])"

text \<open>The non-empty lines of a text, as \<open>while read -r x; do [[ -n "$x" ]] && ...\<close> collects them.\<close>

definition nonempty_lines :: "string \<Rightarrow> string list" where
  "nonempty_lines out = filter (\<lambda>l. l \<noteq> []) (split_nl out)"

text \<open>\<open>grep -q .\<close>: some line has a character.\<close>

definition grep_q_dot :: "string \<Rightarrow> bool" where
  "grep_q_dot out = list_ex (\<lambda>c. c \<noteq> LF) out"

text \<open>
  \<open>slugify\<close>: lower case, every run of characters outside \<open>[a-z0-9]\<close> becomes one dash, one
  dash is dropped at each end, and the first 50 characters are kept.  The text enters the
  pipeline through \<open>echo "$1"\<close>, and the \<open>echo\<close> of the shell takes a text made of a dash and
  letters among \<open>n\<close>, \<open>e\<close>, \<open>E\<close> for an option: it prints no text then.
\<close>

definition is_echo_option :: "string \<Rightarrow> bool" where
  "is_echo_option t =
     (case t of
        [] \<Rightarrow> False
      | c # r \<Rightarrow> c = CHR ''-'' \<and> r \<noteq> [] \<and> list_all (\<lambda>x. x \<in> set ''neE'') r)"

definition is_slug_char :: "char \<Rightarrow> bool" where
  "is_slug_char c = (c \<in> set ''abcdefghijklmnopqrstuvwxyz0123456789'')"

fun squeeze_dashes :: "bool \<Rightarrow> string \<Rightarrow> string" where
  "squeeze_dashes in_run [] = []"
| "squeeze_dashes in_run (c # cs) =
     (if is_slug_char c then c # squeeze_dashes False cs
      else if in_run then squeeze_dashes True cs
      else CHR ''-'' # squeeze_dashes True cs)"

definition strip_dash :: "string \<Rightarrow> string" where
  "strip_dash s =
     (let s1 = (case s of c # r \<Rightarrow> if c = CHR ''-'' then r else s | [] \<Rightarrow> [])
      in case rev s1 of c # r \<Rightarrow> if c = CHR ''-'' then rev r else s1 | [] \<Rightarrow> [])"

definition slugify :: "string \<Rightarrow> string" where
  "slugify t =
     (if is_echo_option t then []
      else take 50 (strip_dash (squeeze_dashes False (map toLowerCase t))))"

subsection \<open>Configuration\<close>

text \<open>
  The globals that stay fixed while \<open>run_parallel_tasks\<close> runs.  \<open>ORIGINAL_DIR\<close> is what
  \<open>pwd\<close> gave and \<open>WORKTREE_BASE\<close> what \<open>mktemp -d\<close> gave.  \<open>parse_ai_result\<close> and
  \<open>error_message\<close> stand for the \<open>jq\<close> extractions of the script, which read nothing but the
  engine's output.  \<open>PR_DRAFT\<close> is kept as the text it is: \<open>${PR_DRAFT:+--draft}\<close> asks only
  whether it is empty.
\<close>

record config =
  AI_ENGINE :: string
  MAX_RETRIES :: int
  RETRY_DELAY :: string
  PRD_SOURCE :: string
  PRD_FILE :: string
  CREATE_PR :: bool
  PR_DRAFT :: string
  MAX_PARALLEL :: int
  MAX_ITERATIONS :: int
  ORIGINAL_DIR :: string
  WORKTREE_BASE :: string
  RALPHY_DIR :: string
  PROGRESS_FILE :: string
  GITHUB_REPO :: string
  parse_ai_result :: "string \<Rightarrow> string"
  error_message :: "string \<Rightarrow> string"

subsection \<open>Worktrees\<close>

definition agent_branch_name :: "string \<Rightarrow> int \<Rightarrow> string" where
  "agent_branch_name task_name agent_num = ''ralphy/agent-'' @ show_int agent_num @ ''-'' @ slugify task_name"

definition agent_worktree_dir :: "config \<Rightarrow> int \<Rightarrow> string" where
  "agent_worktree_dir cfg agent_num = WORKTREE_BASE cfg @ ''/agent-'' @ show_int agent_num"

text \<open>
  \<open>create_agent_worktree\<close>, called in a command substitution (where \<open>errexit\<close> is off) with
  standard error appended to the log file.  It prints the directory and the branch whether
  or not the git commands worked.
\<close>

definition create_agent_worktree ::
  "'w env \<Rightarrow> config \<Rightarrow> string \<Rightarrow> string \<Rightarrow> int \<Rightarrow> tmpfile \<Rightarrow> ('w, 'a) sh_scheme
     \<Rightarrow> (string \<times> string) \<times> ('w, 'a) sh_scheme" where
  "create_agent_worktree E cfg base task_name agent_num log_file s =
     (let branch_name = agent_branch_name task_name agent_num;
          worktree_dir = agent_worktree_dir cfg agent_num;
          (r1, s1) = exec E (Git (ORIGINAL_DIR cfg) WorktreePrune) s;
          (r2, s2) = exec E (Git (ORIGINAL_DIR cfg) (BranchDelete True branch_name)) s1;
          (r3, s3) = exec E (Git (ORIGINAL_DIR cfg) (BranchCreate branch_name base)) s2
      in if \<not> fst r3
         then ((worktree_dir, branch_name),
               fappend log_file (''Failed to create branch '' @ branch_name @ '' from '' @ base) s3)
         else
           (let (r4, s4) = exec E (RmRf worktree_dir) s3;
                (r5, s5) = exec E (Git (ORIGINAL_DIR cfg) (WorktreeAdd worktree_dir branch_name)) s4
            in if \<not> fst r5
               then ((worktree_dir, branch_name),
                     fappend log_file (''Failed to create worktree at '' @ worktree_dir) s5)
               else ((worktree_dir, branch_name), s5)))"

text \<open>
  The test \<open>git -C dir status --porcelain 2>/dev/null | grep -q .\<close> behind \<open>[[ -d dir ]]\<close>,
  as \<open>cleanup_agent_worktree\<close> and \<open>cleanup\<close> make it.  Under \<open>pipefail\<close> it holds when git
  exits 0 and prints a non-empty line.
\<close>

definition probe_dirty :: "'w env \<Rightarrow> string \<Rightarrow> ('w, 'a) sh_scheme \<Rightarrow> bool \<times> ('w, 'a) sh_scheme" where
  "probe_dirty E worktree_dir s =
     (let (d, s1) = exec E (TestDir worktree_dir) s
      in if fst d
         then (let (st, s2) = exec E (Git worktree_dir StatusPorcelain) s1
               in (fst st \<and> grep_q_dot (snd st), s2))
         else (False, s1))"

text \<open>\<open>cleanup_agent_worktree\<close>; the log file is \<open>None\<close> when the third argument is empty.\<close>

definition cleanup_agent_worktree ::
  "'w env \<Rightarrow> config \<Rightarrow> string \<Rightarrow> string \<Rightarrow> tmpfile option \<Rightarrow> ('w, 'a) sh_scheme \<Rightarrow> ('w, 'a) sh_scheme" where
  "cleanup_agent_worktree E cfg worktree_dir branch_name log_file s =
     (let (dirty, s2) = probe_dirty E worktree_dir s
      in if dirty
         then (case log_file of
                 Some lf \<Rightarrow>
                   fappend lf (''Worktree left in place due to uncommitted changes: '' @ worktree_dir) s2
               | None \<Rightarrow> s2)
         else snd (exec E (Git (ORIGINAL_DIR cfg) (WorktreeRemove True worktree_dir)) s2))"

subsection \<open>One agent: \<open>run_parallel_agent\<close>\<close>

abbreviation DQ :: char where "DQ \<equiv> CHR 0x22"

definition agent_prompt :: "config \<Rightarrow> string \<Rightarrow> string" where
  "agent_prompt cfg task_name =
     ''You are working on a specific task. Focus ONLY on this task:'' @ [LF, LF]
     @ ''TASK: '' @ task_name @ [LF, LF]
     @ ''Instructions:'' @ [LF]
     @ ''1. Implement this specific task completely'' @ [LF]
     @ ''2. Write tests if appropriate'' @ [LF]
     @ ''3. Update '' @ PROGRESS_FILE cfg @ '' with what you did'' @ [LF]
     @ ''4. Commit your changes with a descriptive message'' @ [LF, LF]
     @ ''Do NOT modify PRD.md or mark tasks complete - that will be handled separately.'' @ [LF]
     @ ''Focus only on implementing: '' @ task_name"

text \<open>\<open>check_for_errors\<close> fails when the output holds the text \<open>"type":"error"\<close>.\<close>

definition has_error_event :: "string \<Rightarrow> bool" where
  "has_error_event result = contains ([DQ] @ ''type'' @ [DQ] @ '':'' @ [DQ] @ ''error'' @ [DQ]) result"

text \<open>
  The \<open>while [[ $retry -lt $MAX_RETRIES ]]\<close> loop.  It returns \<open>success\<close> and \<open>result\<close>.
  The engine runs as a plain command, so its failure ends the agent's shell, and so does a
  failing \<open>sleep\<close>.
\<close>

function agent_attempts ::
  "'w env \<Rightarrow> config \<Rightarrow> string \<Rightarrow> string \<Rightarrow> tmpfile \<Rightarrow> int \<Rightarrow> string \<Rightarrow> ('w, 'a) sh_scheme
     \<Rightarrow> ((bool \<times> string) \<times> ('w, 'a) sh_scheme) exit" where
  "agent_attempts E cfg worktree_dir prompt log_file retry result0 s =
     (if retry < MAX_RETRIES cfg then
        (let (r, s1) = exec E (Engine (AI_ENGINE cfg) worktree_dir prompt) s in
         if \<not> fst r then Exited ((False, result0), s1)
         else
           (let result = chomp (snd r) in
            if result \<noteq> [] then
              (if has_error_event result then
                 (let s2 = fappend log_file
                             (''API error: '' @ error_message cfg result @ '' (attempt ''
                                @ show_int (retry + 1) @ ''/'' @ show_int (MAX_RETRIES cfg) @ '')'') s1;
                      (sl, s3) = exec E (SleepFor (RETRY_DELAY cfg)) s2
                  in if \<not> fst sl then Exited ((False, result), s3)
                     else agent_attempts E cfg worktree_dir prompt log_file (retry + 1) result s3)
               else Returned ((True, result), s1))
            else
              (let s2 = fappend log_file
                          (''Retry '' @ show_int (retry + 1) @ ''/'' @ show_int (MAX_RETRIES cfg)
                             @ '' after empty response'') s1;
                   (sl, s3) = exec E (SleepFor (RETRY_DELAY cfg)) s2
               in if \<not> fst sl then Exited ((False, result), s3)
                  else agent_attempts E cfg worktree_dir prompt log_file (retry + 1) result s3)))
      else Returned ((False, result0), s))"
  by pat_completeness auto
termination
  by (relation "measure (\<lambda>(E, cfg, worktree_dir, prompt, log_file, retry, result0, s). nat (MAX_RETRIES cfg - retry))") auto

declare agent_attempts.simps [simp del]

text \<open>
  The token lines of \<open>parse_ai_result\<close>'s output:
  \<open>sed -n '/^---TOKENS---$/,$p' | tail -3\<close>, then lines 1 and 2.
\<close>

definition token_lines :: "string \<Rightarrow> string \<times> string" where
  "token_lines parsed =
     (let from_marker = dropWhile (\<lambda>l. l \<noteq> ''---TOKENS---'') (split_nl parsed);
          token_data = drop (length from_marker - 3) from_marker
      in (if 0 < length token_data then token_data ! 0 else [],
          if 1 < length token_data then token_data ! 1 else []))"

text \<open>\<open>[[ "$commit_count" -eq 0 ]]\<close> on a text of digits.\<close>

definition count_is_zero :: "string \<Rightarrow> bool" where
  "count_is_zero c = list_all (\<lambda>d. d = CHR ''0'') c"

text \<open>
  What \<open>$(git -C dir rev-list --count base..HEAD 2>/dev/null || echo "0")\<close> captures, after
  the check \<open>[[ ... =~ ^[0-9]+$ ]] || commit_count=0\<close>.
\<close>

definition commit_count_of :: "bool \<times> string \<Rightarrow> string" where
  "commit_count_of r = sanitize_count (chomp (snd r @ (if fst r then [] else ''0'' @ [LF])))"

text \<open>The part of \<open>run_parallel_agent\<close> after the retry loop.\<close>

definition agent_finish ::
  "'w env \<Rightarrow> config \<Rightarrow> string \<Rightarrow> string \<Rightarrow> int \<Rightarrow> string \<Rightarrow> string \<Rightarrow> tmpfile \<Rightarrow> tmpfile \<Rightarrow> tmpfile
     \<Rightarrow> bool \<Rightarrow> string \<Rightarrow> ('w, 'a) sh_scheme \<Rightarrow> ('w, 'a) sh_scheme" where
  "agent_finish E cfg base task_name agent_num worktree_dir branch_name output_file status_file log_file
       success result s =
     (if success then
        (let (input_tokens, output_tokens) = token_lines (chomp (parse_ai_result cfg result));
             input_tokens = sanitize_count input_tokens;
             output_tokens = sanitize_count output_tokens;
             (r, s1) = exec E (Git worktree_dir (RevListCount base)) s;
             commit_count = commit_count_of r
         in if count_is_zero commit_count then
              (let s2 = fappend log_file ''ERROR: No new commits created; treating task as failed.'' s1;
                   s3 = fwrite status_file ''failed'' s2;
                   s4 = fwrite output_file ''0 0'' s3
               in cleanup_agent_worktree E cfg worktree_dir branch_name (Some log_file) s4)
            else
              (let s2 = (if CREATE_PR cfg
                         then snd (exec E (PrCreate worktree_dir base branch_name task_name
                                     (''Automated implementation by Ralphy (Agent '' @ show_int agent_num @ '')'')
                                     (PR_DRAFT cfg \<noteq> []))
                                   (snd (exec E (Git worktree_dir (PushUpstream branch_name)) s1)))
                         else s1);
                   s3 = fwrite status_file ''done'' s2;
                   s4 = fwrite output_file (input_tokens @ '' '' @ output_tokens @ '' '' @ branch_name) s3
               in cleanup_agent_worktree E cfg worktree_dir branch_name (Some log_file) s4))
      else
        (let s1 = fwrite status_file ''failed'' s;
             s2 = fwrite output_file ''0 0'' s1
         in cleanup_agent_worktree E cfg worktree_dir branch_name (Some log_file) s2))"

text \<open>The part of \<open>run_parallel_agent\<close> before the retry loop; \<open>None\<close> when the worktree is missing.\<close>

definition agent_setup ::
  "'w env \<Rightarrow> config \<Rightarrow> string \<Rightarrow> string \<Rightarrow> int \<Rightarrow> tmpfile \<Rightarrow> tmpfile \<Rightarrow> tmpfile \<Rightarrow> ('w, 'a) sh_scheme
     \<Rightarrow> ((string \<times> string) option \<times> ('w, 'a) sh_scheme) exit" where
  "agent_setup E cfg base task_name agent_num output_file status_file log_file s =
     (let s = fwrite status_file ''setting up'' s;
          s = fappend log_file (''Agent '' @ show_int agent_num @ '' starting for task: '' @ task_name) s;
          s = fappend log_file (''ORIGINAL_DIR='' @ ORIGINAL_DIR cfg) s;
          s = fappend log_file (''WORKTREE_BASE='' @ WORKTREE_BASE cfg) s;
          s = fappend log_file (''BASE_BRANCH='' @ base) s;
          (wb, s) = create_agent_worktree E cfg base task_name agent_num log_file s;
          s = fappend log_file (''Worktree dir: '' @ fst wb) s;
          s = fappend log_file (''Branch name: '' @ snd wb) s;
          (d, s) = exec E (TestDir (fst wb)) s
      in if \<not> fst d then
           (let s = fwrite status_file ''failed'' s;
                s = fappend log_file (''ERROR: Worktree directory does not exist: '' @ fst wb) s;
                s = fwrite output_file ''0 0'' s
            in Returned (None, s))
         else
           (let s = fwrite status_file ''running'' s;
                s = (if PRD_SOURCE cfg = ''markdown'' \<or> PRD_SOURCE cfg = ''yaml''
                     then snd (exec E (Cp (ORIGINAL_DIR cfg @ ''/'' @ PRD_FILE cfg) (fst wb @ ''/'')) s)
                     else s);
                (m, s) = exec E (MkdirP (fst wb @ ''/'' @ RALPHY_DIR cfg)) s
            in if \<not> fst m then Exited (Some wb, s)
               else
                 (let (t, s) = exec E (Touch (fst wb @ ''/'' @ PROGRESS_FILE cfg)) s
                  in if \<not> fst t then Exited (Some wb, s) else Returned (Some wb, s))))"

definition run_parallel_agent ::
  "'w env \<Rightarrow> config \<Rightarrow> string \<Rightarrow> string \<Rightarrow> int \<Rightarrow> tmpfile \<Rightarrow> tmpfile \<Rightarrow> tmpfile \<Rightarrow> ('w, 'a) sh_scheme
     \<Rightarrow> ('w, 'a) sh_scheme exit" where
  "run_parallel_agent E cfg base task_name agent_num output_file status_file log_file s =
     (case agent_setup E cfg base task_name agent_num output_file status_file log_file s of
        Exited (wb, s1) \<Rightarrow> Exited s1
      | Returned (None, s1) \<Rightarrow> Returned s1
      | Returned (Some wb, s1) \<Rightarrow>
          (case agent_attempts E cfg (fst wb) (agent_prompt cfg task_name) log_file 0 [] s1 of
             Exited (sr, s2) \<Rightarrow> Exited s2
           | Returned (sr, s2) \<Rightarrow>
               Returned (agent_finish E cfg base task_name agent_num (fst wb) (snd wb)
                           output_file status_file log_file (fst sr) (snd sr) s2)))"

subsection \<open>The orchestrator's variables\<close>

text \<open>
  The globals and locals of \<open>run_parallel_tasks\<close> that change while it runs.  An agent runs
  in a subshell: it sees copies of them and can change only the world and the files.
\<close>

record 'w rs = "'w sh" +
  BASE_BRANCH :: string
  ORIGINAL_BASE_BRANCH :: string
  integration_branches :: "string list"
  iteration :: int
  total_input_tokens :: int
  total_output_tokens :: int
  batch_num :: int
  completed_branches :: "string list"
  group_completed_branches :: "string list"

text \<open>\<open>$(cat "$path" 2>/dev/null || echo default)\<close>.\<close>

definition cat_or :: "string \<Rightarrow> tmpfile \<Rightarrow> ('w, 'a) sh_scheme \<Rightarrow> string" where
  "cat_or dflt path s = (case files s path of [] \<Rightarrow> dflt | l # ls \<Rightarrow> chomp (join_nl (l # ls)))"

subsection \<open>Marking a task complete\<close>

abbreviation BS :: char where "BS \<equiv> CHR 0x5C"

text \<open>\<open>sed 's/[[\.*^$/]/\\&/g'\<close>: a backslash before each of the seven characters.\<close>

definition sed_escape :: "string \<Rightarrow> string" where
  "sed_escape task = concat (map (\<lambda>c. if c \<in> set (BS # ''[.*^$/'') then [BS, c] else [c]) task)"

definition mark_script :: "string \<Rightarrow> string" where
  "mark_script task =
     ''s/^- '' @ [BS] @ ''[ '' @ [BS] @ ''] '' @ sed_escape task @ ''/- [x] '' @ sed_escape task @ ''/''"

definition yq_mark_filter :: "string \<Rightarrow> string" where
  "yq_mark_filter task = ''(.tasks[] | select(.title == '' @ [DQ] @ task @ [DQ] @ '')).completed = true''"

text \<open>
  The \<open>if\<close> chain on \<open>PRD_SOURCE\<close> in the results loop.  The \<open>sed\<close> and \<open>yq\<close> edits run as plain
  commands; \<open>gh issue close\<close> is followed by \<open>|| true\<close>.
\<close>

definition mark_task_complete :: "'w env \<Rightarrow> config \<Rightarrow> string \<Rightarrow> ('w, 'a) sh_scheme \<Rightarrow> ('w, 'a) sh_scheme exit" where
  "mark_task_complete E cfg task s =
     (if PRD_SOURCE cfg = ''markdown'' then
        (let (r, s1) = exec E (MarkMarkdown (mark_script task) (PRD_FILE cfg)) s
         in if fst r then Returned s1 else Exited s1)
      else if PRD_SOURCE cfg = ''yaml'' then
        (let (r, s1) = exec E (MarkYaml (yq_mark_filter task) (PRD_FILE cfg)) s
         in if fst r then Returned s1 else Exited s1)
      else if PRD_SOURCE cfg = ''github'' then
        Returned (snd (exec E (IssueClose (takeWhile (\<lambda>c. c \<noteq> CHR '':'') task) (GITHUB_REPO cfg)) s))
      else Returned s)"

subsection \<open>One batch\<close>

text \<open>
  The \<open>for\<close> loop that starts the agents of a batch.  The agents of a batch run side by
  side; the model runs each to its end when it is started, in the order of their start.
\<close>

fun spawn_agents :: "'w env \<Rightarrow> config \<Rightarrow> string list \<Rightarrow> 'w rs \<Rightarrow> 'w rs" where
  "spawn_agents E cfg [] s = s"
| "spawn_agents E cfg (task # rest) s =
     (let agent_num = iteration s + 1;
          s1 = s\<lparr>iteration := iteration s + 1\<rparr>;
          s2 = fwrite (StatusFile agent_num) ''waiting'' s1;
          s3 = say (''  Agent '' @ show_int agent_num @ '': '' @ take 50 task) s2;
          s4 = (case run_parallel_agent E cfg (BASE_BRANCH s3) task agent_num
                       (OutputFile agent_num) (StatusFile agent_num) (LogFile agent_num) s3 of
                  Returned s' \<Rightarrow> s' | Exited s' \<Rightarrow> s')
      in spawn_agents E cfg rest s4)"

text \<open>
  The monitor loop ends when no status file reads \<open>setting up\<close> or \<open>running\<close> (every agent
  process has ended by then).  With such a status left behind by an agent whose shell
  \<open>errexit\<close> ended, it polls for ever.
\<close>

definition batch_hangs :: "int \<Rightarrow> 'w rs \<Rightarrow> bool" where
  "batch_hangs batch_size s =
     list_ex (\<lambda>n. cat_or ''waiting'' (StatusFile n) s = ''setting up''
                \<or> cat_or ''waiting'' (StatusFile n) s = ''running'')
       [iteration s - batch_size + 1..iteration s]"

text \<open>The \<open>done)\<close> case of the results loop.\<close>

definition result_done :: "'w env \<Rightarrow> config \<Rightarrow> string \<Rightarrow> int \<Rightarrow> 'w rs \<Rightarrow> 'w rs exit" where
  "result_done E cfg task agent_num s =
     (let output_data = cat_or ''0 0'' (OutputFile agent_num) s;
          in_tok = sanitize_count (awk_field 0 output_data);
          out_tok = sanitize_count (awk_field 1 output_data);
          branch = awk_field 2 output_data;
          s1 = s\<lparr>total_input_tokens := total_input_tokens s + int (digits_value in_tok),
                 total_output_tokens := total_output_tokens s + int (digits_value out_tok)\<rparr>;
          s2 = (if branch \<noteq> []
                then s1\<lparr>completed_branches := completed_branches s1 @ [branch],
                        group_completed_branches := group_completed_branches s1 @ [branch]\<rparr>
                else s1)
      in mark_task_complete E cfg task s2)"

text \<open>The log of a failed agent as the results loop shows it: twenty lines at most.\<close>

definition show_failed_log :: "int \<Rightarrow> 'w rs \<Rightarrow> 'w rs" where
  "show_failed_log agent_num s =
     (let lg = files s (LogFile agent_num)
      in if lg = [] then s
         else s\<lparr>console := console s
                  @ [Text (''    Agent '' @ show_int agent_num @ '' log:'')]
                  @ map (\<lambda>l. Text (''    | '' @ l)) (take 20 lg)
                  @ (if 20 < length lg
                     then [Text (''    | ... ('' @ show_int (int (length lg) - 20) @ '' more lines)'')]
                     else [])\<rparr>)"

text \<open>
  The results loop, at index \<open>j\<close> with the tasks from there on.  Colours and icons are left
  out of the lines it prints.
\<close>

fun batch_results :: "'w env \<Rightarrow> config \<Rightarrow> int \<Rightarrow> int \<Rightarrow> string list \<Rightarrow> 'w rs \<Rightarrow> 'w rs exit" where
  "batch_results E cfg batch_size j [] s = Returned s"
| "batch_results E cfg batch_size j (task # rest) s =
     (let agent_num = iteration s - batch_size + j + 1;
          status = cat_or ''unknown'' (StatusFile agent_num) s
      in case (if status = ''done'' then result_done E cfg task agent_num s else Returned s) of
           Exited s1 \<Rightarrow> Exited s1
         | Returned s1 \<Rightarrow>
             (let s2 = say (''  '' @ status @ '' Agent '' @ show_int agent_num @ '': '' @ take 45 task) s1;
                  s3 = (if status = ''failed'' then show_failed_log agent_num s2 else s2);
                  s4 = fremove (LogFile agent_num)
                         (fremove (OutputFile agent_num) (fremove (StatusFile agent_num) s3))
              in batch_results E cfg batch_size (j + 1) rest s4))"

text \<open>One batch: the header, the agents, the monitor, the results.  \<open>None\<close>: it never ends.\<close>

definition run_batch ::
  "'w env \<Rightarrow> config \<Rightarrow> string list \<Rightarrow> string \<Rightarrow> int \<Rightarrow> int \<Rightarrow> 'w rs \<Rightarrow> 'w rs exit option" where
  "run_batch E cfg tasks group_label batch_start batch_end s =
     (let batch_size = batch_end - batch_start;
          s1 = s\<lparr>console := console s @ [BatchHeader (batch_num s) group_label batch_size]\<rparr>;
          batch_tasks = take (nat batch_size) (drop (nat batch_start) tasks);
          s2 = spawn_agents E cfg batch_tasks s1
      in if batch_hangs batch_size s2 then None
         else Some (batch_results E cfg batch_size 0 batch_tasks s2))"

text \<open>\<open>batch_end\<close> as the loop computes it.\<close>

definition batch_end_of :: "config \<Rightarrow> int \<Rightarrow> int \<Rightarrow> int" where
  "batch_end_of cfg total_group_tasks batch_start =
     (if batch_start + MAX_PARALLEL cfg > total_group_tasks then total_group_tasks
      else batch_start + MAX_PARALLEL cfg)"

definition max_iterations_reached :: "config \<Rightarrow> 'w rs \<Rightarrow> bool" where
  "max_iterations_reached cfg s = (MAX_ITERATIONS cfg > 0 \<and> iteration s \<ge> MAX_ITERATIONS cfg)"

text \<open>The \<open>while [[ $batch_start -lt $total_group_tasks ]]\<close> loop of one group.\<close>

partial_function (option) batch_loop ::
  "'w env \<Rightarrow> config \<Rightarrow> string list \<Rightarrow> string \<Rightarrow> int \<Rightarrow> 'w rs \<Rightarrow> 'w rs exit option" where
  "batch_loop E cfg tasks group_label batch_start s =
     (if batch_start < int (length tasks) then
        (case run_batch E cfg tasks group_label batch_start
                (batch_end_of cfg (int (length tasks)) batch_start) (s\<lparr>batch_num := batch_num s + 1\<rparr>) of
           None \<Rightarrow> None
         | Some (Exited s1) \<Rightarrow> Some (Exited s1)
         | Some (Returned s1) \<Rightarrow>
             if max_iterations_reached cfg s1
             then Some (Returned (log_warn (''Reached max iterations ('' @ show_int (MAX_ITERATIONS cfg) @ '')'') s1))
             else batch_loop E cfg tasks group_label (batch_end_of cfg (int (length tasks)) batch_start) s1)
      else Some (Returned s))"

declare batch_loop.simps [code]

subsection \<open>Integration of one group\<close>

text \<open>
  The \<open>for branch in "${group_completed_branches[@]}"\<close> loop on the integration branch.  It
  returns \<open>merge_failed\<close>.
\<close>

fun merge_group_branches :: "'w env \<Rightarrow> config \<Rightarrow> string list \<Rightarrow> 'w rs \<Rightarrow> bool \<times> 'w rs" where
  "merge_group_branches E cfg [] s = (False, s)"
| "merge_group_branches E cfg (branch # rest) s =
     (let (m, s1) = exec E (Git (ORIGINAL_DIR cfg) (Merge branch)) s
      in if \<not> fst m then
           (let s2 = log_warn (''Conflict merging '' @ branch @ '' into integration branch'') s1
            in (True, snd (exec E (Git (ORIGINAL_DIR cfg) MergeAbort) s2)))
         else merge_group_branches E cfg rest s1)"

text \<open>
  \<open>git checkout "$current_head" || git checkout "$ORIGINAL_BASE_BRANCH" || true\<close>, or the
  second checkout alone when \<open>current_head\<close> is empty.
\<close>

definition return_to_head :: "'w env \<Rightarrow> config \<Rightarrow> string \<Rightarrow> 'w rs \<Rightarrow> 'w rs" where
  "return_to_head E cfg current_head s =
     (if current_head \<noteq> [] then
        (let (a, s1) = exec E (Git (ORIGINAL_DIR cfg) (Checkout current_head)) s
         in if fst a then s1
            else snd (exec E (Git (ORIGINAL_DIR cfg) (Checkout (ORIGINAL_BASE_BRANCH s1))) s1))
      else snd (exec E (Git (ORIGINAL_DIR cfg) (Checkout (ORIGINAL_BASE_BRANCH s))) s))"

definition integration_branch_of :: "string \<Rightarrow> string" where
  "integration_branch_of grp = ''ralphy/integration-group-'' @ grp"

text \<open>The \<open>if\<close> block after the batches of a group; \<open>n_groups\<close> is \<open>${#groups[@]}\<close>.\<close>

definition integrate_group :: "'w env \<Rightarrow> config \<Rightarrow> string \<Rightarrow> nat \<Rightarrow> 'w rs \<Rightarrow> 'w rs" where
  "integrate_group E cfg grp n_groups s =
     (if PRD_SOURCE cfg = ''yaml'' \<and> group_completed_branches s \<noteq> [] \<and> n_groups > 1 then
        (let integration_branch = integration_branch_of grp;
             s0 = log_info (''Creating integration branch for group '' @ grp @ '': '' @ integration_branch) s;
             (c, s1) = exec E (Git (ORIGINAL_DIR cfg) (BranchCreate integration_branch (BASE_BRANCH s0))) s0
         in if fst c then
              (let (h, s2) = exec E (Git (ORIGINAL_DIR cfg) SymbolicRefHead) s1;
                   current_head = chomp (snd h);
                   (k, s3) = exec E (Git (ORIGINAL_DIR cfg) (Checkout integration_branch)) s2
               in if fst k then
                    (let (merge_failed, s4) = merge_group_branches E cfg (group_completed_branches s3) s3;
                         s5 = return_to_head E cfg current_head s4
                     in if \<not> merge_failed then
                          log_info (''Updated BASE_BRANCH to '' @ integration_branch @ '' for next group'')
                            (s5\<lparr>BASE_BRANCH := integration_branch,
                                integration_branches := integration_branches s5 @ [integration_branch]\<rparr>)
                        else
                          (let s6 = snd (exec E (Git (ORIGINAL_DIR cfg) (BranchDelete True integration_branch)) s5)
                           in log_warn (''Integration merge failed; next group will branch from current BASE_BRANCH (''
                                          @ BASE_BRANCH s6 @ '')'') s6))
                  else
                    (let s4 = snd (exec E (Git (ORIGINAL_DIR cfg) (BranchDelete True integration_branch)) s3)
                     in log_warn (''Could not checkout integration branch; next group will branch from current BASE_BRANCH (''
                                    @ BASE_BRANCH s4 @ '')'') s4))
            else
              log_warn (''Could not create integration branch; next group will branch from current BASE_BRANCH (''
                          @ BASE_BRANCH s1 @ '')'') s1)
      else s)"

subsection \<open>The groups\<close>

text \<open>
  The \<open>for group in "${groups[@]}"\<close> loop.  \<open>ListTasks ''yaml'' grp\<close> is
  \<open>get_tasks_in_group_yaml\<close>.
\<close>

fun group_loop :: "'w env \<Rightarrow> config \<Rightarrow> nat \<Rightarrow> string list \<Rightarrow> string list \<Rightarrow> 'w rs \<Rightarrow> 'w rs exit option" where
  "group_loop E cfg n_groups all_tasks [] s = Some (Returned s)"
| "group_loop E cfg n_groups all_tasks (grp # rest) s =
     (let s0 = s\<lparr>group_completed_branches := []\<rparr>;
          (tasks, s1) =
            (if PRD_SOURCE cfg = ''yaml''
             then (let (r, s1) = exec E (ListTasks ''yaml'' grp) s0 in (nonempty_lines (snd r), s1))
             else (all_tasks, s0));
          group_label = (if PRD_SOURCE cfg = ''yaml'' then '' (group '' @ grp @ '')'' else [])
      in if PRD_SOURCE cfg = ''yaml'' \<and> tasks = [] then group_loop E cfg n_groups all_tasks rest s1
         else
           (case batch_loop E cfg tasks group_label 0 s1 of
              None \<Rightarrow> None
            | Some (Exited s2) \<Rightarrow> Some (Exited s2)
            | Some (Returned s2) \<Rightarrow>
                (let s3 = integrate_group E cfg grp n_groups s2
                 in if max_iterations_reached cfg s3 then Some (Returned s3)
                    else group_loop E cfg n_groups all_tasks rest s3)))"

subsection \<open>Final reconciliation\<close>

text \<open>\<open>git branch -D "$b" && echo "Deleted $b" || true\<close> for every branch of a list.\<close>

fun delete_branches :: "'w env \<Rightarrow> config \<Rightarrow> string list \<Rightarrow> 'w rs \<Rightarrow> 'w rs" where
  "delete_branches E cfg [] s = s"
| "delete_branches E cfg (b # rest) s =
     (let (r, s1) = exec E (Git (ORIGINAL_DIR cfg) (BranchDelete True b)) s
      in delete_branches E cfg rest (if fst r then say (''  Deleted '' @ b) s1 else s1))"

text \<open>The first loop over \<open>completed_branches\<close> without integration branches; it returns \<open>merge_failed\<close>.\<close>

fun direct_merges :: "'w env \<Rightarrow> config \<Rightarrow> string list \<Rightarrow> string list \<Rightarrow> 'w rs \<Rightarrow> string list \<times> 'w rs" where
  "direct_merges E cfg [] merge_failed s = (merge_failed, s)"
| "direct_merges E cfg (branch # rest) merge_failed s =
     (let (m, s1) = exec E (Git (ORIGINAL_DIR cfg) (Merge branch)) s
      in if fst m
         then direct_merges E cfg rest merge_failed
                (snd (exec E (Git (ORIGINAL_DIR cfg) (BranchDelete False branch)) s1))
         else direct_merges E cfg rest (merge_failed @ [branch]) s1)"

definition resolve_prompt :: "string \<Rightarrow> string" where
  "resolve_prompt conflicted_files =
     ''You are resolving a git merge conflict. The following files have conflicts:'' @ [LF, LF]
     @ conflicted_files @ [LF, LF]
     @ ''For each conflicted file:'' @ [LF]
     @ ''1. Read the file to see the conflict markers (<<<<<<< HEAD, =======, >>>>>>> branch)'' @ [LF]
     @ ''2. Understand what both versions are trying to do'' @ [LF]
     @ ''3. Edit the file to resolve the conflict by combining both changes intelligently'' @ [LF]
     @ ''4. Remove all conflict markers'' @ [LF]
     @ ''5. Make sure the resulting code is valid and compiles'' @ [LF, LF]
     @ ''After resolving all conflicts:'' @ [LF]
     @ ''1. Run 'git add' on each resolved file'' @ [LF]
     @ ''2. Run 'git commit --no-edit' to complete the merge'' @ [LF, LF]
     @ ''Be careful to preserve functionality from BOTH branches. The goal is to integrate all features.''"

text \<open>
  The loop over \<open>merge_failed\<close>; it returns \<open>still_failed\<close>.  The assignment
  \<open>conflicted_files=$(git diff ...)\<close> and the engine run are plain commands: the failure of either
  ends the script.  \<open>mktemp\<close> and \<open>rm -f\<close> on the engine's output file are taken to succeed.
\<close>

fun resolve_conflicts :: "'w env \<Rightarrow> config \<Rightarrow> string list \<Rightarrow> string list \<Rightarrow> 'w rs \<Rightarrow> (string list \<times> 'w rs) exit" where
  "resolve_conflicts E cfg [] still_failed s = Returned (still_failed, s)"
| "resolve_conflicts E cfg (branch # rest) still_failed s =
     (let (d, s1) = exec E (Git (ORIGINAL_DIR cfg) DiffUnmerged) s
      in if \<not> fst d then Exited (still_failed, s1)
         else
           (let conflicted_files = chomp (snd d)
            in if conflicted_files = [] then
                 (let s2 = snd (exec E (Git (ORIGINAL_DIR cfg) MergeAbort) s1);
                      (m, s3) = exec E (Git (ORIGINAL_DIR cfg) (Merge branch)) s2
                  in if \<not> fst m
                     then resolve_conflicts E cfg rest (still_failed @ [branch])
                            (snd (exec E (Git (ORIGINAL_DIR cfg) MergeAbort) (say (''  Resolving '' @ branch @ ''... failed'') s3)))
                     else resolve_conflicts E cfg rest still_failed
                            (snd (exec E (Git (ORIGINAL_DIR cfg) (BranchDelete False branch)) (say (''  Resolving '' @ branch @ ''... merged'') s3))))
               else
                 (let (e, s2) = exec E (EngineResolve (AI_ENGINE cfg) (ORIGINAL_DIR cfg) (resolve_prompt conflicted_files)) s1
                  in if \<not> fst e then Exited (still_failed, s2)
                     else
                       (let (u, s3) = exec E (Git (ORIGINAL_DIR cfg) DiffUnmerged) s2
                        in if \<not> (fst u \<and> grep_q_dot (snd u))
                           then resolve_conflicts E cfg rest still_failed
                                  (snd (exec E (Git (ORIGINAL_DIR cfg) (BranchDelete False branch))
                                          (say (''  Resolving '' @ branch @ ''... (AI resolved)'') s3)))
                           else resolve_conflicts E cfg rest (still_failed @ [branch])
                                  (snd (exec E (Git (ORIGINAL_DIR cfg) MergeAbort)
                                          (say (''  Resolving '' @ branch @ ''... (AI could not resolve)'') s3)))))))"

definition list_branches :: "string list \<Rightarrow> ('w, 'a) sh_scheme \<Rightarrow> ('w, 'a) sh_scheme" where
  "list_branches bs s = s\<lparr>console := console s @ map (\<lambda>b. Text (''  * '' @ b)) bs\<rparr>"

text \<open>
  The block \<open>if [[ ${#completed_branches[@]} -gt 0 ]]\<close> that ends \<open>run_parallel_tasks\<close>.  Of what
  it prints, the \<open>echo\<close> lines, the warnings and the outcome written after \<open>Resolving\<close> are kept;
  the \<open>printf\<close> marks around each merge, which cannot fail, are not.
\<close>

definition final_reconciliation :: "'w env \<Rightarrow> config \<Rightarrow> 'w rs \<Rightarrow> 'w rs exit" where
  "final_reconciliation E cfg s =
     (if completed_branches s = [] then Returned s
      else if CREATE_PR cfg then
        Returned (list_branches (completed_branches s) (say ''Branches created by agents:'' s))
      else if integration_branches s \<noteq> [] then
        (let final_target = ORIGINAL_BASE_BRANCH s;
             final_integration = last (integration_branches s);
             s0 = say (''Merging integration branch into '' @ final_target @ ''...'') s;
             (c, s1) = exec E (Git (ORIGINAL_DIR cfg) (Checkout final_target)) s0
         in if \<not> fst c then
              Returned (say (''Integration branch: '' @ final_integration)
                         (log_warn (''Could not checkout '' @ final_target @ ''; leaving integration branch unmerged.'') s1))
            else
              (let (m, s2) = exec E (Git (ORIGINAL_DIR cfg) (Merge final_integration)) s1
               in if fst m then
                    Returned (delete_branches E cfg (completed_branches s2)
                               (say ''Cleaning up agent branches...''
                                  (delete_branches E cfg (integration_branches s2)
                                     (say ''Cleaning up integration branches...'' s2))))
                  else
                    (let s3 = snd (exec E (Git (ORIGINAL_DIR cfg) MergeAbort) s2);
                         s4 = log_warn ''Could not merge integration branch; leaving branches for manual resolution.'' s3;
                         s5 = say (''Integration branch: '' @ final_integration) s4
                     in Returned (say (''Original base: '' @ final_target) s5))))
      else
        (let final_target = ORIGINAL_BASE_BRANCH s;
             s0 = say (''Merging agent branches into '' @ final_target @ ''...'') s;
             (c, s1) = exec E (Git (ORIGINAL_DIR cfg) (Checkout final_target)) s0
         in if \<not> fst c then
              Returned (list_branches (completed_branches s1)
                         (say ''Branches created by agents:''
                            (log_warn (''Could not checkout '' @ final_target @ ''; leaving agent branches unmerged.'') s1)))
            else
              (let (merge_failed, s2) = direct_merges E cfg (completed_branches s1) [] s1
               in if merge_failed \<noteq> [] then
                    (case resolve_conflicts E cfg merge_failed []
                            (say (''Using AI to resolve '' @ show_int (int (length merge_failed)) @ '' merge conflict(s)...'') s2) of
                       Exited (still_failed, s3) \<Rightarrow> Exited s3
                     | Returned (still_failed, s3) \<Rightarrow>
                         if still_failed \<noteq> [] then
                           Returned (say ''Resolve conflicts manually: git merge <branch>''
                                      (list_branches still_failed
                                         (say ''Some conflicts could not be resolved automatically:'' s3)))
                         else Returned (say ''All branches merged successfully!'' s3))
                  else Returned (say ''All branches merged successfully!'' s2))))"

subsection \<open>The whole run and the exit trap\<close>

text \<open>
  \<open>if ! find "$WORKTREE_BASE" ... | grep -q .; then rm -rf "$WORKTREE_BASE" || true; else
  log_warn ...\<close>, as it stands in \<open>run_parallel_tasks\<close> and in \<open>cleanup\<close>.
\<close>

definition remove_worktree_base :: "'w env \<Rightarrow> config \<Rightarrow> ('w, 'a) sh_scheme \<Rightarrow> ('w, 'a) sh_scheme" where
  "remove_worktree_base E cfg s =
     (let (f, s1) = exec E (FindAgentDirs (WORKTREE_BASE cfg)) s
      in if \<not> (fst f \<and> grep_q_dot (snd f)) then snd (exec E (RmRf (WORKTREE_BASE cfg)) s1)
         else log_warn (''Preserving worktree base with dirty agents: '' @ WORKTREE_BASE cfg) s1)"

text \<open>
  \<open>run_parallel_tasks\<close>, from the globals as \<open>main\<close> leaves them (\<open>base0\<close> is \<open>BASE_BRANCH\<close>,
  \<open>iteration0\<close> is \<open>iteration\<close>).  \<open>None\<close>: the run never ends.
\<close>

definition run_parallel_tasks ::
  "'w env \<Rightarrow> config \<Rightarrow> string \<Rightarrow> int \<Rightarrow> int \<Rightarrow> int \<Rightarrow> 'w sh \<Rightarrow> 'w rs exit option" where
  "run_parallel_tasks E cfg base0 iteration0 tokens_in0 tokens_out0 sh0 =
     (let init = \<lparr>world = world sh0, trace = trace sh0, files = files sh0, console = console sh0,
                  BASE_BRANCH = base0, ORIGINAL_BASE_BRANCH = [], integration_branches = [],
                  iteration = iteration0, total_input_tokens = tokens_in0, total_output_tokens = tokens_out0,
                  batch_num = 0, completed_branches = [], group_completed_branches = []\<rparr>;
          (t, s1) = exec E (ListTasks (PRD_SOURCE cfg) []) init;
          all_tasks = nonempty_lines (snd t)
      in if all_tasks = [] then Some (Exited (log_info ''No tasks to run'' s1))
         else
           (let s2 = (if BASE_BRANCH s1 = []
                      then (let (h, s2) = exec E (Git (ORIGINAL_DIR cfg) RevParseAbbrevHead) s1
                            in s2\<lparr>BASE_BRANCH := chomp (snd h @ (if fst h then [] else ''main'' @ [LF]))\<rparr>)
                      else s1);
                s3 = s2\<lparr>ORIGINAL_BASE_BRANCH := BASE_BRANCH s2, integration_branches := []\<rparr>;
                (groups, s4) =
                  (if PRD_SOURCE cfg = ''yaml''
                   then (let (g, s4) = exec E (ListGroups (PRD_FILE cfg)) s3 in (nonempty_lines (snd g), s4))
                   else ([''all''], s3))
            in case group_loop E cfg (length groups) all_tasks groups s4 of
                 None \<Rightarrow> None
               | Some (Exited s5) \<Rightarrow> Some (Exited s5)
               | Some (Returned s5) \<Rightarrow> Some (final_reconciliation E cfg (remove_worktree_base E cfg s5))))"

text \<open>
  The worktree part of the exit trap \<open>cleanup\<close>: the loop over \<open>"$WORKTREE_BASE"/agent-*\<close>
  (\<open>GlobAgentDirs\<close> gives what the pattern expands to) and the removal of the base.
\<close>

fun cleanup_dirs :: "'w env \<Rightarrow> config \<Rightarrow> string list \<Rightarrow> ('w, 'a) sh_scheme \<Rightarrow> ('w, 'a) sh_scheme" where
  "cleanup_dirs E cfg [] s = s"
| "cleanup_dirs E cfg (dir # rest) s =
     (let (d, s1) = exec E (TestDir dir) s
      in if fst d then
           (let (st, s2) = exec E (Git dir StatusPorcelain) s1
            in if fst st \<and> grep_q_dot (snd st)
               then cleanup_dirs E cfg rest (log_warn (''Preserving dirty worktree: '' @ dir) s2)
               else cleanup_dirs E cfg rest (snd (exec E (Git (ORIGINAL_DIR cfg) (WorktreeRemove False dir)) s2)))
         else cleanup_dirs E cfg rest s1)"

definition cleanup_worktrees :: "'w env \<Rightarrow> config \<Rightarrow> ('w, 'a) sh_scheme \<Rightarrow> ('w, 'a) sh_scheme" where
  "cleanup_worktrees E cfg s =
     (if WORKTREE_BASE cfg \<noteq> [] then
        (let (b, s1) = exec E (TestDir (WORKTREE_BASE cfg)) s
         in if fst b then
              (let (g, s2) = exec E (GlobAgentDirs (WORKTREE_BASE cfg)) s1
               in remove_worktree_base E cfg (cleanup_dirs E cfg (nonempty_lines (snd g)) s2))
            else s1)
      else s)"

text \<open>The commands a function issued: what the trace gained between two states.\<close>

definition issued :: "('w, 'a) sh_scheme \<Rightarrow> ('w, 'b) sh_scheme \<Rightarrow> (cmd \<times> bool) list" where
  "issued s s' = drop (length (trace s)) (trace s')"

text \<open>
  Two states of the orchestrator with the same variables: they differ at most in the world,
  the commands issued, the temporary files and what was printed.
\<close>

definition same_vars :: "'w rs \<Rightarrow> 'w rs \<Rightarrow> bool" where
  "same_vars s s' = (s' = s\<lparr>world := world s', trace := trace s', files := files s', console := console s'\<rparr>)"

section \<open>A small repository to run the orchestrator on\<close>

text \<open>
  One concrete environment, used to run the functions above on explicit inputs.  A branch
  is the list of its commits; a worktree is a directory with the branch checked out in it
  and whether it holds uncommitted changes.  An engine run in a worktree adds one commit
  to its branch unless the worktree is listed as idle, and leaves uncommitted files where
  the worktree is listed as messy.  Merging a branch listed as conflicting into a branch
  that lacks its commits stops in a conflict; while a merge is stopped, another merge and a
  checkout fail.  Git refuses to delete a branch that is checked out.  A worktree listed as
  crowded holds so many changed files that \<open>git status\<close> is still writing its listing when
  the \<open>grep -q\<close> reading it has seen a line and gone: git is ended by \<open>SIGPIPE\<close>, which is a
  failure.  Removing a directory removes the worktrees beneath it.
\<close>

record simw =
  sim_branches :: "(string \<times> nat list) list"
  sim_head :: string
  sim_merging :: "string option"
  sim_worktrees :: "(string \<times> string \<times> bool) list"
  sim_dirs :: "string list"
  sim_conflicting :: "string list"
  sim_idle :: "string list"
  sim_messy :: "string list"
  sim_crowded :: "string list"
  sim_resolver :: bool
  sim_reply :: string
  sim_tasks :: string
  sim_groups :: string
  sim_fresh :: nat

fun assoc_update :: "'k \<Rightarrow> 'v \<Rightarrow> ('k \<times> 'v) list \<Rightarrow> ('k \<times> 'v) list" where
  "assoc_update k v [] = [(k, v)]"
| "assoc_update k v (p # ps) = (if fst p = k then (k, v) # ps else p # assoc_update k v ps)"

definition assoc_delete :: "'k \<Rightarrow> ('k \<times> 'v) list \<Rightarrow> ('k \<times> 'v) list" where
  "assoc_delete k ps = filter (\<lambda>p. fst p \<noteq> k) ps"

definition checked_out :: "simw \<Rightarrow> string \<Rightarrow> bool" where
  "checked_out w b = (b = sim_head w \<or> b \<in> set (map (\<lambda>t. fst (snd t)) (sim_worktrees w)))"

definition absorb :: "nat list \<Rightarrow> nat list \<Rightarrow> nat list" where
  "absorb hs cs = hs @ filter (\<lambda>c. c \<notin> set hs) cs"

definition sim_git :: "string \<Rightarrow> git_cmd \<Rightarrow> simw \<Rightarrow> (bool \<times> string) \<times> simw" where
  "sim_git d g w =
     (case g of
        WorktreePrune \<Rightarrow> ((True, []), w)
      | BranchDelete force b \<Rightarrow>
          (case map_of (sim_branches w) b of
             None \<Rightarrow> ((False, []), w)
           | Some cs \<Rightarrow>
               if checked_out w b then ((False, []), w)
               else if force \<or> set cs \<subseteq> set (case map_of (sim_branches w) (sim_head w) of Some hs \<Rightarrow> hs | None \<Rightarrow> [])
               then ((True, []), w\<lparr>sim_branches := assoc_delete b (sim_branches w)\<rparr>)
               else ((False, []), w))
      | BranchCreate b base \<Rightarrow>
          (case map_of (sim_branches w) base of
             None \<Rightarrow> ((False, []), w)
           | Some cs \<Rightarrow>
               if map_of (sim_branches w) b = None
               then ((True, []), w\<lparr>sim_branches := sim_branches w @ [(b, cs)]\<rparr>)
               else ((False, []), w))
      | WorktreeAdd dir b \<Rightarrow>
          (if map_of (sim_branches w) b \<noteq> None \<and> map_of (sim_worktrees w) dir = None \<and> \<not> checked_out w b
           then ((True, []), w\<lparr>sim_worktrees := sim_worktrees w @ [(dir, b, False)]\<rparr>)
           else ((False, []), w))
      | WorktreeRemove force dir \<Rightarrow>
          (case map_of (sim_worktrees w) dir of
             None \<Rightarrow> ((False, []), w)
           | Some t \<Rightarrow>
               if force \<or> \<not> snd t
               then ((True, []), w\<lparr>sim_worktrees := assoc_delete dir (sim_worktrees w)\<rparr>)
               else ((False, []), w))
      | StatusPorcelain \<Rightarrow>
          (case map_of (sim_worktrees w) d of
             None \<Rightarrow> ((False, []), w)
           | Some t \<Rightarrow>
               ((\<not> (snd t \<and> d \<in> set (sim_crowded w)), if snd t then ''?? notes.txt'' @ [LF] else []), w))
      | RevListCount base \<Rightarrow>
          (case map_of (sim_worktrees w) d of
             None \<Rightarrow> ((False, []), w)
           | Some t \<Rightarrow>
               (case map_of (sim_branches w) (fst t) of
                  None \<Rightarrow> ((False, []), w)
                | Some cs \<Rightarrow>
                    (case map_of (sim_branches w) base of
                       None \<Rightarrow> ((False, []), w)
                     | Some bs \<Rightarrow>
                         ((True, String_of_nat (length (filter (\<lambda>c. c \<notin> set bs) cs)) @ [LF]), w))))
      | RevParseAbbrevHead \<Rightarrow> ((True, (if sim_head w = [] then ''HEAD'' else sim_head w) @ [LF]), w)
      | SymbolicRefHead \<Rightarrow>
          (if sim_head w = [] then ((False, []), w) else ((True, sim_head w @ [LF]), w))
      | Checkout b \<Rightarrow>
          (if map_of (sim_branches w) b \<noteq> None \<and> sim_merging w = None
           then ((True, []), w\<lparr>sim_head := b\<rparr>)
           else ((False, []), w))
      | Merge b \<Rightarrow>
          (if sim_merging w \<noteq> None then ((False, []), w)
           else
             (case map_of (sim_branches w) b of
                None \<Rightarrow> ((False, []), w)
              | Some cs \<Rightarrow>
                  (case map_of (sim_branches w) (sim_head w) of
                     None \<Rightarrow> ((False, []), w)
                   | Some hs \<Rightarrow>
                       if b \<in> set (sim_conflicting w) \<and> \<not> set cs \<subseteq> set hs
                       then ((False, []), w\<lparr>sim_merging := Some b\<rparr>)
                       else ((True, []),
                             w\<lparr>sim_branches := assoc_update (sim_head w) (absorb hs cs) (sim_branches w)\<rparr>))))
      | MergeAbort \<Rightarrow>
          (if sim_merging w = None then ((False, []), w) else ((True, []), w\<lparr>sim_merging := None\<rparr>))
      | DiffUnmerged \<Rightarrow> ((True, if sim_merging w = None then [] else ''conflict.txt'' @ [LF]), w)
      | PushUpstream b \<Rightarrow> ((True, []), w))"

definition sim_engine :: "string \<Rightarrow> simw \<Rightarrow> (bool \<times> string) \<times> simw" where
  "sim_engine d w =
     (case map_of (sim_worktrees w) d of
        None \<Rightarrow> ((True, sim_reply w), w)
      | Some t \<Rightarrow>
          (let w1 = (if d \<in> set (sim_idle w) then w
                     else w\<lparr>sim_branches :=
                              assoc_update (fst t)
                                ((case map_of (sim_branches w) (fst t) of Some cs \<Rightarrow> cs | None \<Rightarrow> []) @ [sim_fresh w])
                                (sim_branches w),
                            sim_fresh := sim_fresh w + 1\<rparr>);
               w2 = (if d \<in> set (sim_messy w)
                     then w1\<lparr>sim_worktrees := assoc_update d (fst t, True) (sim_worktrees w1)\<rparr>
                     else w1)
           in ((True, sim_reply w), w2)))"

definition sim_resolve :: "simw \<Rightarrow> (bool \<times> string) \<times> simw" where
  "sim_resolve w =
     (case sim_merging w of
        None \<Rightarrow> ((True, sim_reply w), w)
      | Some b \<Rightarrow>
          if sim_resolver w
          then ((True, sim_reply w),
                w\<lparr>sim_merging := None,
                  sim_branches :=
                    assoc_update (sim_head w)
                      (absorb (case map_of (sim_branches w) (sim_head w) of Some hs \<Rightarrow> hs | None \<Rightarrow> [])
                              (case map_of (sim_branches w) b of Some cs \<Rightarrow> cs | None \<Rightarrow> []))
                      (sim_branches w)\<rparr>)
          else ((True, sim_reply w), w))"

definition sim :: "simw env" where
  "sim c w =
     (case c of
        Git d g \<Rightarrow> sim_git d g w
      | TestDir d \<Rightarrow> ((d \<in> set (sim_dirs w) \<or> map_of (sim_worktrees w) d \<noteq> None, []), w)
      | Engine e d p \<Rightarrow> sim_engine d w
      | EngineResolve e d p \<Rightarrow> sim_resolve w
      | Cp a b \<Rightarrow> ((True, []), w)
      | MkdirP d \<Rightarrow> ((True, []), w)
      | Touch f \<Rightarrow> ((True, []), w)
      | RmRf d \<Rightarrow>
          ((True, []),
           w\<lparr>sim_dirs := filter (\<lambda>x. x \<noteq> d) (sim_dirs w),
             sim_worktrees := filter (\<lambda>t. fst t \<noteq> d \<and> take (length d + 1) (fst t) \<noteq> d @ ''/'')
                                (sim_worktrees w)\<rparr>)
      | SleepFor t \<Rightarrow> ((True, []), w)
      | PrCreate d b h t y dr \<Rightarrow> ((True, []), w)
      | MarkMarkdown a f \<Rightarrow> ((True, []), w)
      | MarkYaml a f \<Rightarrow> ((True, []), w)
      | IssueClose n r \<Rightarrow> ((True, []), w)
      | FindAgentDirs b \<Rightarrow> ((True, case sim_worktrees w of [] \<Rightarrow> [] | t # ts \<Rightarrow> fst t @ [LF]), w)
      | GlobAgentDirs b \<Rightarrow> ((True, concat (map (\<lambda>t. fst t @ [LF]) (sim_worktrees w))), w)
      | ListTasks src grp \<Rightarrow> ((True, sim_tasks w), w)
      | ListGroups f \<Rightarrow> ((True, sim_groups w), w))"

text \<open>A repository with one branch and one commit, a quiet shell, and a configuration.\<close>

definition repo0 :: simw where
  "repo0 =
     \<lparr>sim_branches = [(''main'', [0])], sim_head = ''main'', sim_merging = None, sim_worktrees = [],
      sim_dirs = [''/tmp/wt''], sim_conflicting = [], sim_idle = [], sim_messy = [],
      sim_crowded = [], sim_resolver = False,
      sim_reply = ''{}'' @ [LF], sim_tasks = [], sim_groups = [], sim_fresh = 1\<rparr>"

definition shell0 :: "simw \<Rightarrow> simw sh" where
  "shell0 w = \<lparr>world = w, trace = [], files = (\<lambda>p. []), console = []\<rparr>"

definition cfg0 :: config where
  "cfg0 =
     \<lparr>AI_ENGINE = ''claude'', MAX_RETRIES = 3, RETRY_DELAY = ''5'', PRD_SOURCE = ''markdown'',
      PRD_FILE = ''PRD.md'', CREATE_PR = False, PR_DRAFT = ''false'', MAX_PARALLEL = 2, MAX_ITERATIONS = 0,
      ORIGINAL_DIR = ''/repo'', WORKTREE_BASE = ''/tmp/wt'', RALPHY_DIR = ''.ralphy'',
      PROGRESS_FILE = ''.ralphy/progress.txt'', GITHUB_REPO = [],
      parse_ai_result = (\<lambda>r. ''ok'' @ [LF] @ ''---TOKENS---'' @ [LF] @ ''10'' @ [LF] @ ''20'' @ [LF] @ ''0'' @ [LF]),
      error_message = (\<lambda>r. ''Unknown error'')\<rparr>"

definition run_state0 :: "simw \<Rightarrow> simw rs" where
  "run_state0 w =
     \<lparr>world = w, trace = [], files = (\<lambda>p. []), console = [],
      BASE_BRANCH = ''main'', ORIGINAL_BASE_BRANCH = ''main'', integration_branches = [],
      iteration = 0, total_input_tokens = 0, total_output_tokens = 0,
      batch_num = 0, completed_branches = [], group_completed_branches = []\<rparr>"

text \<open>
  An agent has finished and left its worktree full of uncommitted files: more than
  \<open>git status\<close> can list before the reader of the listing is gone.
\<close>

definition repo_crowded :: simw where
  "repo_crowded =
     repo0\<lparr>sim_branches := [(''main'', [0]), (''ralphy/agent-1-a'', [0, 1])],
           sim_worktrees := [(''/tmp/wt/agent-1'', ''ralphy/agent-1-a'', True)],
           sim_crowded := [''/tmp/wt/agent-1'']\<rparr>"

text \<open>
  A task file with groups, and the moment after group 1 has run: two agents have committed
  on their branches, and the second branch conflicts with the first.
\<close>

definition cfg_yaml :: config where
  "cfg_yaml = cfg0\<lparr>PRD_SOURCE := ''yaml'', PRD_FILE := ''tasks.yaml''\<rparr>"

definition repo_conflict :: simw where
  "repo_conflict =
     repo0\<lparr>sim_branches := [(''main'', [0]), (''ralphy/agent-1-a'', [0, 1]), (''ralphy/agent-2-b'', [0, 2])],
           sim_conflicting := [''ralphy/agent-2-b'']\<rparr>"

definition after_group1 :: "simw rs" where
  "after_group1 =
     (run_state0 repo_conflict)
       \<lparr>iteration := 2, completed_branches := [''ralphy/agent-1-a'', ''ralphy/agent-2-b''],
        group_completed_branches := [''ralphy/agent-1-a'', ''ralphy/agent-2-b'']\<rparr>"



text \<open>
  The end of a run without groups: three agents have committed, and the branches of the
  second and the third each conflict with the base once the first is merged.  The engine is
  able to resolve a conflict it is shown.
\<close>

definition repo_three :: simw where
  "repo_three =
     repo0\<lparr>sim_branches := [(''main'', [0]), (''ralphy/agent-1-a'', [0, 1]), (''ralphy/agent-2-b'', [0, 2]),
                            (''ralphy/agent-3-c'', [0, 3])],
           sim_conflicting := [''ralphy/agent-2-b'', ''ralphy/agent-3-c''],
           sim_resolver := True\<rparr>"

definition three_done :: "simw rs" where
  "three_done =
     (run_state0 repo_three)
       \<lparr>iteration := 3,
        completed_branches := [''ralphy/agent-1-a'', ''ralphy/agent-2-b'', ''ralphy/agent-3-c'']\<rparr>"


section \<open>The backoff delay in the arithmetic of the language\<close>

text \<open>
  The retry loop above carries its delays as reals.  Here \<open>calculateBackoffDelay\<close> is taken
  in the arithmetic the language has, for an attempt that is a whole number.

  A number of the language is a binary64 value: a real \<open>m * 2^e\<close> with \<open>|m| < 2^53\<close> and
  \<open>-1074 \<le> e \<le> 971\<close>, one of the two infinities, or \<open>NaN\<close>.  The two zeros are not told
  apart.  Every arithmetic operation gives the exact result rounded to the nearest binary64
  value, ties to the even significand, and an infinity when that lies beyond the largest one.
\<close>

datatype number = Fin real | PInf | NInf | NaN

text \<open>The nearest integer, ties to even.\<close>

definition round_even :: "real \<Rightarrow> int" where
  "round_even q =
     (let f = \<lfloor>q\<rfloor>; d = q - of_int f
      in if d < 1 / 2 then f else if 1 / 2 < d then f + 1 else if even f then f else f + 1)"

text \<open>
  The exponent of the unit in the last place at magnitude \<open>a\<close>: 52 below the binade of \<open>a\<close>,
  and \<open>-1074\<close> throughout the subnormal range.
\<close>

definition ulp_exp :: "real \<Rightarrow> int" where
  "ulp_exp a =
     (if a < pow2 (- 1022) then - 1074
      else Max {e \<in> {- 1022..1023}. pow2 e \<le> a} - 52)"

text \<open>Rounding to the nearest multiple of the unit in the last place, and the overflow that may follow.\<close>

definition nearest :: "real \<Rightarrow> real" where
  "nearest x = of_int (round_even (x / pow2 (ulp_exp \<bar>x\<bar>))) * pow2 (ulp_exp \<bar>x\<bar>)"

definition round64 :: "real \<Rightarrow> number" where
  "round64 x =
     (let y = nearest x
      in if pow2 1024 \<le> y then PInf else if y \<le> - pow2 1024 then NInf else Fin y)"

text \<open>A real is a binary64 value when rounding leaves it as it is.\<close>

definition is_double :: "real \<Rightarrow> bool" where
  "is_double x = (nearest x = x \<and> \<bar>x\<bar> < pow2 1024)"

text \<open>The operators \<open>*\<close> and \<open>+\<close>, and \<open>Math.min\<close>, \<open>Math.floor\<close> and \<open>Math.pow(2, e)\<close> at an integer \<open>e\<close>.\<close>

fun times64 :: "number \<Rightarrow> number \<Rightarrow> number" where
  "times64 (Fin x) (Fin y) = round64 (x * y)"
| "times64 NaN b = NaN"
| "times64 a NaN = NaN"
| "times64 (Fin x) PInf = (if x = 0 then NaN else if 0 < x then PInf else NInf)"
| "times64 (Fin x) NInf = (if x = 0 then NaN else if 0 < x then NInf else PInf)"
| "times64 PInf (Fin y) = (if y = 0 then NaN else if 0 < y then PInf else NInf)"
| "times64 NInf (Fin y) = (if y = 0 then NaN else if 0 < y then NInf else PInf)"
| "times64 PInf PInf = PInf"
| "times64 PInf NInf = NInf"
| "times64 NInf PInf = NInf"
| "times64 NInf NInf = PInf"

fun plus64 :: "number \<Rightarrow> number \<Rightarrow> number" where
  "plus64 (Fin x) (Fin y) = round64 (x + y)"
| "plus64 NaN b = NaN"
| "plus64 a NaN = NaN"
| "plus64 PInf NInf = NaN"
| "plus64 NInf PInf = NaN"
| "plus64 PInf b = PInf"
| "plus64 a PInf = PInf"
| "plus64 NInf b = NInf"
| "plus64 a NInf = NInf"

fun Math_min :: "number \<Rightarrow> number \<Rightarrow> number" where
  "Math_min NaN b = NaN"
| "Math_min a NaN = NaN"
| "Math_min NInf b = NInf"
| "Math_min a NInf = NInf"
| "Math_min PInf b = b"
| "Math_min a PInf = a"
| "Math_min (Fin x) (Fin y) = Fin (min x y)"

fun Math_floor :: "number \<Rightarrow> number" where
  "Math_floor (Fin x) = Fin (of_int \<lfloor>x\<rfloor>)"
| "Math_floor a = a"

definition Math_pow2 :: "int \<Rightarrow> number" where
  "Math_pow2 e = round64 (pow2 e)"

text \<open>
  \<open>calculateBackoffDelay\<close>, operation by operation; \<open>random\<close> is what \<open>Math.random()\<close>
  returns.
\<close>

definition calculateBackoffDelay_binary64 :: "int \<Rightarrow> number \<Rightarrow> number \<Rightarrow> bool \<Rightarrow> number \<Rightarrow> number" where
  "calculateBackoffDelay_binary64 attempt baseDelayMs maxDelayMs useJitter random =
     (let delay = times64 baseDelayMs (Math_pow2 (attempt - 1));
          delay = Math_min delay maxDelayMs;
          delay = (if useJitter
                   then (let jitter = times64 (times64 delay (Fin (1 / 4))) random
                         in plus64 delay jitter)
                   else delay)
      in Math_floor delay)"

section \<open>Properties of the backoff delay\<close>

subsection \<open>Powers of two\<close>

lemma pow2_powr: "pow2 e = 2 powr (of_int e)"
proof (cases "0 \<le> e")
  case True
  then have "(2::real) powr (of_int e) = 2 powr (real (nat e))" by simp
  also have "\<dots> = 2 ^ nat e" by (simp add: powr_realpow)
  finally show ?thesis using True by (simp add: pow2_def)
next
  case False
  then have "(2::real) powr (of_int e) = 2 powr (- real (nat (- e)))" by simp
  also have "\<dots> = 1 / 2 ^ nat (- e)" by (simp add: powr_minus powr_realpow divide_inverse)
  finally show ?thesis using False by (simp add: pow2_def)
qed

lemma pow2_pos: "0 < pow2 e"
  by (simp add: pow2_powr)

lemma pow2_add: "pow2 (a + b) = pow2 a * pow2 b"
  by (simp add: pow2_powr powr_add)

lemma pow2_le_iff: "pow2 a \<le> pow2 b \<longleftrightarrow> a \<le> b"
  by (simp add: pow2_powr)

lemma pow2_less_iff: "pow2 a < pow2 b \<longleftrightarrow> a < b"
  by (simp add: pow2_powr)

lemma pow2_nonneg_int: "0 \<le> e \<Longrightarrow> pow2 e = of_int (2 ^ nat e)"
  by (simp add: pow2_def)

lemma pow2_numeral: "pow2 0 = 1" "pow2 1024 = 2 ^ 1024" "pow2 53 = 2 ^ 53" "pow2 52 = 2 ^ 52"
  by (simp_all add: pow2_def)

lemma pow2_diff: "pow2 a / pow2 b = pow2 (a - b)"
  using pow2_add[of "a - b" b] pow2_pos[of b] by (simp add: field_simps)

subsection \<open>Rounding to an integer\<close>

lemma round_even_int: "round_even (of_int n) = n"
  by (simp add: round_even_def)

lemma round_even_mono: "q \<le> q' \<Longrightarrow> round_even q \<le> round_even q'"
proof -
  assume le: "q \<le> q'"
  have f: "\<lfloor>q\<rfloor> \<le> \<lfloor>q'\<rfloor>" using le by (rule floor_mono)
  have u: "round_even q \<le> \<lfloor>q\<rfloor> + 1" by (simp add: round_even_def Let_def)
  have l: "\<lfloor>q'\<rfloor> \<le> round_even q'" by (simp add: round_even_def Let_def)
  show ?thesis
  proof (cases "\<lfloor>q\<rfloor> < \<lfloor>q'\<rfloor>")
    case True
    then show ?thesis using u l by linarith
  next
    case False
    then have e: "\<lfloor>q'\<rfloor> = \<lfloor>q\<rfloor>" using f by linarith
    have "q - of_int \<lfloor>q\<rfloor> \<le> q' - of_int \<lfloor>q\<rfloor>" using le by simp
    then show ?thesis unfolding round_even_def Let_def e by auto
  qed
qed

lemma round_even_ge_int: "of_int n \<le> q \<Longrightarrow> n \<le> round_even q"
  using round_even_mono[of "of_int n" q] by (simp add: round_even_int)

lemma round_even_le_int: "q \<le> of_int n \<Longrightarrow> round_even q \<le> n"
  using round_even_mono[of q "of_int n"] by (simp add: round_even_int)

subsection \<open>The unit in the last place\<close>

lemma finite_binades: "finite {e \<in> {- 1022..1023::int}. P e}"
  by (rule finite_subset[where B = "{- 1022..1023}"]) auto

lemma ulp_exp_ge: "- 1074 \<le> ulp_exp a"
proof (cases "a < pow2 (- 1022)")
  case True
  then show ?thesis by (simp add: ulp_exp_def)
next
  case False
  let ?S = "{e \<in> {- 1022..1023}. pow2 e \<le> a}"
  have fin: "finite ?S" by (rule finite_binades)
  have m: "- 1022 \<in> ?S" using False by simp
  have "- 1022 \<le> Max ?S" using Max_ge[OF fin m] .
  then show ?thesis using False by (simp add: ulp_exp_def)
qed

lemma ulp_exp_normal:
  assumes "pow2 (- 1022) \<le> a"
  shows "pow2 (ulp_exp a + 52) \<le> a"
    and "- 1022 \<le> ulp_exp a + 52" and "ulp_exp a + 52 \<le> 1023"
    and "ulp_exp a + 52 < 1023 \<Longrightarrow> a < pow2 (ulp_exp a + 53)"
proof -
  let ?S = "{e \<in> {- 1022..1023}. pow2 e \<le> a}"
  have fin: "finite ?S" by (rule finite_binades)
  have m: "- 1022 \<in> ?S" using assms by simp
  then have ne: "?S \<noteq> {}" by blast
  have u: "ulp_exp a + 52 = Max ?S" using assms by (simp add: ulp_exp_def)
  have i: "Max ?S \<in> ?S" using Max_in[OF fin ne] .
  show "pow2 (ulp_exp a + 52) \<le> a" using i unfolding u by simp
  show "- 1022 \<le> ulp_exp a + 52" using i unfolding u by simp
  show "ulp_exp a + 52 \<le> 1023" using i unfolding u by simp
  show "a < pow2 (ulp_exp a + 53)" if "ulp_exp a + 52 < 1023"
  proof (rule ccontr)
    assume "\<not> a < pow2 (ulp_exp a + 53)"
    then have "pow2 (Max ?S + 1) \<le> a" unfolding u[symmetric] by (simp add: add.commute add.left_commute)
    moreover have "Max ?S + 1 \<in> {- 1022..1023}" using i that unfolding u by simp
    ultimately have "Max ?S + 1 \<in> ?S" by simp
    then have "Max ?S + 1 \<le> Max ?S" using Max_ge[OF fin] by blast
    then show False by simp
  qed
qed

lemma ulp_exp_mono: "a \<le> b \<Longrightarrow> ulp_exp a \<le> ulp_exp b"
proof (cases "a < pow2 (- 1022)")
  case True
  assume "a \<le> b"
  show ?thesis using True ulp_exp_ge[of b] by (simp add: ulp_exp_def)
next
  case False
  assume le: "a \<le> b"
  then have nb: "\<not> b < pow2 (- 1022)" using False by simp
  let ?A = "{e \<in> {- 1022..1023}. pow2 e \<le> a}" and ?B = "{e \<in> {- 1022..1023}. pow2 e \<le> b}"
  have "?A \<subseteq> ?B" using le by auto
  moreover have "- 1022 \<in> ?A" using False by simp
  then have "?A \<noteq> {}" by blast
  moreover have "finite ?B" by (rule finite_binades)
  ultimately have "Max ?A \<le> Max ?B" by (rule Max_mono)
  then show ?thesis using False nb by (simp add: ulp_exp_def)
qed

lemma ulp_exp_le:
  assumes "0 \<le> a" "a < pow2 (e + 53)" "- 1074 \<le> e"
  shows "ulp_exp a \<le> e"
proof (cases "a < pow2 (- 1022)")
  case True
  then show ?thesis using assms(3) by (simp add: ulp_exp_def)
next
  case False
  then have n: "pow2 (- 1022) \<le> a" by simp
  have "pow2 (ulp_exp a + 52) < pow2 (e + 53)"
    using ulp_exp_normal(1)[OF n] assms(2) by linarith
  then have "ulp_exp a + 52 < e + 53" by (simp only: pow2_less_iff)
  then show ?thesis by simp
qed

subsection \<open>Rounding to binary64\<close>

lemma nearest_fix:
  assumes "\<bar>m\<bar> < 2 ^ 53" "- 1074 \<le> e"
  shows "nearest (of_int m * pow2 e) = of_int m * pow2 e"
proof -
  let ?x = "of_int m * pow2 e"
  let ?u = "ulp_exp \<bar>?x\<bar>"
  have ax: "\<bar>?x\<bar> = of_int \<bar>m\<bar> * pow2 e" using pow2_pos[of e] by (simp add: abs_mult)
  have "of_int \<bar>m\<bar> < (2::real) ^ 53" using assms(1) by (metis of_int_less_numeral_power_cancel_iff)
  then have "\<bar>?x\<bar> < 2 ^ 53 * pow2 e" unfolding ax using pow2_pos[of e] by simp
  also have "\<dots> = pow2 (e + 53)" by (simp add: pow2_add pow2_numeral)
  finally have "?u \<le> e" using assms(2) by (intro ulp_exp_le) simp_all
  then have d: "0 \<le> e - ?u" by simp
  have "?x / pow2 ?u = of_int m * pow2 (e - ?u)" by (simp add: pow2_diff[symmetric])
  also have "\<dots> = of_int (m * 2 ^ nat (e - ?u))" unfolding pow2_nonneg_int[OF d] by simp
  finally have q: "?x / pow2 ?u = of_int (m * 2 ^ nat (e - ?u))" .
  have "nearest ?x = of_int (m * 2 ^ nat (e - ?u)) * pow2 ?u"
    unfolding nearest_def q round_even_int by (rule refl)
  also have "\<dots> = ?x / pow2 ?u * pow2 ?u" unfolding q by (rule refl)
  also have "\<dots> = ?x" using pow2_pos[of ?u] by simp
  finally show ?thesis .
qed


lemma nearest_mono:
  assumes "0 \<le> x" "x \<le> y"
  shows "nearest x \<le> nearest y"
proof -
  have y0: "0 \<le> y" using assms by simp
  let ?ex = "ulp_exp x" and ?ey = "ulp_exp y"
  have ax: "\<bar>x\<bar> = x" "\<bar>y\<bar> = y" using assms by simp_all
  have le: "?ex \<le> ?ey" using assms(2) by (rule ulp_exp_mono)
  show ?thesis
  proof (cases "?ex = ?ey")
    case True
    have "x / pow2 ?ey \<le> y / pow2 ?ey" using assms(2) pow2_pos[of ?ey] by (simp add: divide_right_mono)
    then have "round_even (x / pow2 ?ey) \<le> round_even (y / pow2 ?ey)" by (rule round_even_mono)
    then have "real_of_int (round_even (x / pow2 ?ey)) * pow2 ?ey \<le> real_of_int (round_even (y / pow2 ?ey)) * pow2 ?ey"
      using pow2_pos[of ?ey] by simp
    then show ?thesis unfolding nearest_def ax True .
  next
    case False
    then have lt: "?ex < ?ey" using le by simp
    have "- 1074 < ?ey" using lt ulp_exp_ge[of x] by linarith
    then have ny: "pow2 (- 1022) \<le> y" by (auto simp: ulp_exp_def split: if_splits)
    let ?b = "pow2 (?ey + 52)"
    have b_le: "?b \<le> y" by (rule ulp_exp_normal(1)[OF ny])
    have xb: "x \<le> ?b"
    proof (rule ccontr)
      assume "\<not> x \<le> ?b"
      then have bx: "?b \<le> x" by simp
      have "ulp_exp ?b \<le> ?ex" using bx by (rule ulp_exp_mono)
      moreover have "ulp_exp ?b = ?ey"
      proof -
        have r: "- 1022 \<le> ?ey + 52" "?ey + 52 \<le> 1023" using ulp_exp_normal(2,3)[OF ny] by simp_all
        have nb: "pow2 (- 1022) \<le> ?b" using r(1) by (simp only: pow2_le_iff)
        let ?S = "{e \<in> {- 1022..1023}. pow2 e \<le> ?b}"
        have "Max ?S = ?ey + 52"
        proof (rule Max_eqI)
          show "finite ?S" by (rule finite_binades)
          show "\<And>z. z \<in> ?S \<Longrightarrow> z \<le> ?ey + 52" by (simp add: pow2_le_iff)
          show "?ey + 52 \<in> ?S" using r by simp
        qed
        then show ?thesis using nb by (simp add: ulp_exp_def)
      qed
      ultimately show False using lt by simp
    qed
    have d1: "0 \<le> ?ey + 52 - ?ex" using lt by simp
    have "x / pow2 ?ex \<le> ?b / pow2 ?ex" using xb pow2_pos[of ?ex] by (simp add: divide_right_mono)
    also have "\<dots> = of_int (2 ^ nat (?ey + 52 - ?ex))" unfolding pow2_diff pow2_nonneg_int[OF d1] by (rule refl)
    finally have "round_even (x / pow2 ?ex) \<le> 2 ^ nat (?ey + 52 - ?ex)" by (rule round_even_le_int)
    then have "real_of_int (round_even (x / pow2 ?ex)) \<le> real_of_int (2 ^ nat (?ey + 52 - ?ex))"
      by (simp only: of_int_le_iff)
    then have "real_of_int (round_even (x / pow2 ?ex)) * pow2 ?ex \<le> real_of_int (2 ^ nat (?ey + 52 - ?ex)) * pow2 ?ex"
      using pow2_pos[of ?ex] by simp
    also have "\<dots> = pow2 (?ey + 52 - ?ex) * pow2 ?ex" unfolding pow2_nonneg_int[OF d1] by (rule refl)
    also have "\<dots> = ?b" unfolding pow2_add[symmetric] by simp
    finally have nx: "nearest x \<le> ?b" unfolding nearest_def ax .
    have "?b / pow2 ?ey = pow2 52" unfolding pow2_diff by simp
    then have "of_int (2 ^ 52) = ?b / pow2 ?ey" by (simp add: pow2_numeral)
    also have "\<dots> \<le> y / pow2 ?ey" using b_le pow2_pos[of ?ey] by (simp add: divide_right_mono)
    finally have "2 ^ 52 \<le> round_even (y / pow2 ?ey)" by (rule round_even_ge_int)
    then have "real_of_int (2 ^ 52) \<le> real_of_int (round_even (y / pow2 ?ey))"
      by (simp only: of_int_le_iff)
    then have "real_of_int (2 ^ 52) * pow2 ?ey \<le> real_of_int (round_even (y / pow2 ?ey)) * pow2 ?ey"
      using pow2_pos[of ?ey] by simp
    moreover have "real_of_int (2 ^ 52) * pow2 ?ey = ?b"
      by (simp add: pow2_add pow2_numeral)
    ultimately have "?b \<le> nearest y" unfolding nearest_def ax by simp
    then show ?thesis using nx by linarith
  qed
qed


lemma nearest_pow2: "- 1074 \<le> e \<Longrightarrow> nearest (pow2 e) = pow2 e"
  using nearest_fix[of 1 e] by simp

lemma pow2_53_less: "(2::real) ^ 53 < pow2 1024"
proof -
  have "pow2 53 < pow2 1024" by (simp add: pow2_less_iff)
  then show ?thesis by (simp only: pow2_numeral(3))
qed

lemma is_doubleI:
  assumes "\<bar>m\<bar> < 2 ^ 53" "- 1074 \<le> e" "\<bar>of_int m * pow2 e\<bar> < pow2 1024"
  shows "is_double (of_int m * pow2 e)"
  unfolding is_double_def using nearest_fix[OF assms(1,2)] assms(3) by (rule conjI)

lemma is_double_int: "\<bar>n\<bar> < 2 ^ 53 \<Longrightarrow> is_double (of_int n)"
proof -
  assume a: "\<bar>n\<bar> < 2 ^ 53"
  have "\<bar>real_of_int n\<bar> < 2 ^ 53" using a by (metis of_int_abs of_int_less_numeral_power_cancel_iff)
  then have "\<bar>real_of_int n\<bar> < pow2 1024" using pow2_53_less by (rule less_trans)
  then have h: "\<bar>of_int n * pow2 0\<bar> < pow2 1024" by (simp only: pow2_numeral(1) mult_1_right)
  have z: "- 1074 \<le> (0::int)" by simp
  have "is_double (of_int n * pow2 0)" by (rule is_doubleI[OF a z h])
  then show ?thesis by (simp only: pow2_numeral(1) mult_1_right)
qed

lemma is_double_repr:
  assumes "is_double x"
  shows "\<exists>m e. x = of_int m * pow2 e \<and> \<bar>m\<bar> < 2 ^ 53 \<and> - 1074 \<le> e"
proof -
  let ?u = "ulp_exp \<bar>x\<bar>"
  let ?m = "round_even (x / pow2 ?u)"
  have x: "x = of_int ?m * pow2 ?u" using assms by (simp add: is_double_def nearest_def)
  have b: "\<bar>x\<bar> < pow2 1024" using assms by (simp add: is_double_def)
  have lt: "\<bar>x\<bar> < pow2 (?u + 53)"
  proof (cases "\<bar>x\<bar> < pow2 (- 1022)")
    case True
    then have u: "?u = - 1074" by (simp add: ulp_exp_def)
    have "pow2 (- 1022) < pow2 (- 1074 + 53)" by (simp add: pow2_less_iff)
    then show ?thesis using True unfolding u by (rule less_trans[rotated])
  next
    case False
    then have n: "pow2 (- 1022) \<le> \<bar>x\<bar>" by simp
    show ?thesis
    proof (cases "?u + 52 < 1023")
      case True
      then show ?thesis by (rule ulp_exp_normal(4)[OF n])
    next
      case False
      then have "?u + 53 = 1024" using ulp_exp_normal(3)[OF n] by simp
      then show ?thesis using b by (simp only:)
    qed
  qed
  have "\<bar>x\<bar> = of_int \<bar>?m\<bar> * pow2 ?u"
    by (subst x) (simp add: abs_mult pow2_pos less_imp_le)
  then have "of_int \<bar>?m\<bar> * pow2 ?u < pow2 53 * pow2 ?u"
    using lt by (simp add: pow2_add mult.commute)
  then have "real_of_int \<bar>?m\<bar> < pow2 53" using pow2_pos[of ?u] by simp
  then have "real_of_int \<bar>?m\<bar> < 2 ^ 53" by (simp only: pow2_numeral(3))
  then have "\<bar>?m\<bar> < 2 ^ 53" by (metis of_int_less_numeral_power_cancel_iff)
  then show ?thesis using x ulp_exp_ge[of "\<bar>x\<bar>"] by blast
qed

lemma is_double_scale:
  assumes "is_double x" "0 \<le> n" "\<bar>x * pow2 n\<bar> < pow2 1024"
  shows "is_double (x * pow2 n)"
proof -
  obtain m e where r: "x = of_int m * pow2 e" "\<bar>m\<bar> < 2 ^ 53" "- 1074 \<le> e"
    using is_double_repr[OF assms(1)] by blast
  have e: "x * pow2 n = of_int m * pow2 (e + n)" by (simp add: r(1) pow2_add)
  have en: "- 1074 \<le> e + n" using r(3) assms(2) by simp
  have "is_double (of_int m * pow2 (e + n))"
    using assms(3) unfolding e by (rule is_doubleI[OF r(2) en])
  then show ?thesis unfolding e .
qed

lemma is_double_less: "is_double x \<Longrightarrow> x < pow2 1024"
  by (simp add: is_double_def abs_less_iff)

lemma round64_double: "is_double x \<Longrightarrow> round64 x = Fin x"
  by (auto simp: round64_def is_double_def Let_def abs_less_iff)



lemma round64_overflow: "pow2 1024 \<le> x \<Longrightarrow> round64 x = PInf"
proof -
  assume a: "pow2 1024 \<le> x"
  have "0 \<le> pow2 1024" using pow2_pos[of 1024] by simp
  then have "nearest (pow2 1024) \<le> nearest x" using a by (rule nearest_mono)
  then have "pow2 1024 \<le> nearest x" by (simp add: nearest_pow2)
  then show ?thesis by (simp add: round64_def Let_def)
qed

subsection \<open>The delay\<close>

lemma Math_pow2_small: "0 \<le> e \<Longrightarrow> e \<le> 1023 \<Longrightarrow> Math_pow2 e = Fin (pow2 e)"
proof -
  assume e: "0 \<le> e" "e \<le> 1023"
  have "pow2 e < pow2 1024" using e by (simp add: pow2_less_iff)
  then have h: "\<bar>of_int 1 * pow2 e\<bar> < pow2 1024" using pow2_pos[of e] by simp
  have m: "\<bar>1::int\<bar> < 2 ^ 53" by simp
  have l: "- 1074 \<le> e" using e by simp
  have "is_double (of_int 1 * pow2 e)" by (rule is_doubleI[OF m l h])
  then have "is_double (pow2 e)" by simp
  then show ?thesis unfolding Math_pow2_def by (rule round64_double)
qed

lemma Math_pow2_big: "1024 \<le> e \<Longrightarrow> Math_pow2 e = PInf"
proof -
  assume "1024 \<le> e"
  then have "pow2 1024 \<le> pow2 e" by (simp only: pow2_le_iff)
  then show ?thesis unfolding Math_pow2_def by (rule round64_overflow)
qed

lemma pow2_nat: "0 \<le> e \<Longrightarrow> pow2 e = 2 ^ nat e"
  by (simp add: pow2_def)

lemma capped_delay:
  assumes "1 \<le> k" "is_double b" "0 \<le> b" "is_double mx" "0 \<le> mx" "k \<le> 1024 \<or> 1 \<le> b"
  shows "Math_min (times64 (Fin b) (Math_pow2 (k - 1))) (Fin mx) = Fin (capped k b mx)"
proof -
  have k0: "0 \<le> k - 1" using assms(1) by simp
  have mxb: "mx < pow2 1024" using assms(4) by (rule is_double_less)
  have p: "2 ^ nat (k - 1) = pow2 (k - 1)" using pow2_nat[OF k0] by simp
  have cp: "capped k b mx = min mx (b * pow2 (k - 1))" by (simp only: capped_def p)
  have big: "pow2 1024 \<le> b * pow2 (k - 1) \<Longrightarrow> capped k b mx = mx"
    using mxb unfolding cp by simp
  show ?thesis
  proof (cases "k \<le> 1024")
    case True
    then have "k - 1 \<le> 1023" by simp
    then have t: "times64 (Fin b) (Math_pow2 (k - 1)) = round64 (b * pow2 (k - 1))"
      using k0 by (simp add: Math_pow2_small)
    show ?thesis
    proof (cases "b * pow2 (k - 1) < pow2 1024")
      case lt: True
      have "0 \<le> b * pow2 (k - 1)" using assms(3) pow2_pos[of "k - 1"] by simp
      then have "\<bar>b * pow2 (k - 1)\<bar> < pow2 1024" using lt by simp
      then have "is_double (b * pow2 (k - 1))" by (rule is_double_scale[OF assms(2) k0])
      then have "round64 (b * pow2 (k - 1)) = Fin (b * pow2 (k - 1))" by (rule round64_double)
      then show ?thesis unfolding t cp by (simp add: min.commute)
    next
      case False
      then have ge: "pow2 1024 \<le> b * pow2 (k - 1)" by simp
      then have "round64 (b * pow2 (k - 1)) = PInf" by (rule round64_overflow)
      then show ?thesis unfolding t using big[OF ge] by simp
    qed
  next
    case False
    then have b1: "1 \<le> b" and kk: "1024 \<le> k - 1" using assms(6) by simp_all
    have t: "times64 (Fin b) (Math_pow2 (k - 1)) = PInf"
      using b1 by (simp add: Math_pow2_big[OF kk])
    have "pow2 1024 \<le> pow2 (k - 1)" using kk by (simp only: pow2_le_iff)
    also have "\<dots> \<le> b * pow2 (k - 1)" using b1 pow2_pos[of "k - 1"] by simp
    finally show ?thesis unfolding t using big by simp
  qed
qed




lemma capped_nonneg: "0 \<le> b \<Longrightarrow> 0 \<le> mx \<Longrightarrow> 0 \<le> capped k b mx"
  by (simp add: capped_def)





lemma is_double_numerals:
  "is_double 0" "is_double 4" "is_double 500" "is_double 1000" "is_double 4000" "is_double 4500"
  "is_double 60000"
  using is_double_int[of 0] is_double_int[of 4] is_double_int[of 500] is_double_int[of 1000]
    is_double_int[of 4000] is_double_int[of 4500] is_double_int[of 60000]
  by simp_all


lemma ulp_exp_binade:
  assumes "pow2 M \<le> a" "a < pow2 (M + 1)" "- 1022 \<le> M" "M \<le> 1023"
  shows "ulp_exp a = M - 52"
proof -
  have n: "\<not> a < pow2 (- 1022)"
  proof -
    have "pow2 (- 1022) \<le> pow2 M" using assms(3) by (simp only: pow2_le_iff)
    then show ?thesis using assms(1) by linarith
  qed
  let ?S = "{e \<in> {- 1022..1023}. pow2 e \<le> a}"
  have "Max ?S = M"
  proof (rule Max_eqI)
    show "finite ?S" by (rule finite_binades)
    show "M \<in> ?S" using assms by simp
    show "z \<le> M" if "z \<in> ?S" for z
    proof -
      have "pow2 z < pow2 (M + 1)" using that assms(2) by simp
      then have "z < M + 1" by (simp only: pow2_less_iff)
      then show ?thesis by simp
    qed
  qed
  then show ?thesis using n by (simp add: ulp_exp_def)
qed

text \<open>
  Rounding shows in the result: with a base of 4 ms and the largest draw below 1, the sum
  \<open>4 + 1 * (1 - 2^-53)\<close> rounds to 5, which the floor leaves.
\<close>

lemma backoff_example_rounding:
  "calculateBackoffDelay_binary64 1 (Fin 4) (Fin 60000) True (Fin (1 - 1 / 2 ^ 53)) = Fin 5"
proof -
  have c: "Math_min (times64 (Fin 4) (Math_pow2 (1 - 1))) (Fin 60000) = Fin (capped 1 4 60000)"
    by (rule capped_delay) (simp_all add: is_double_numerals)
  have v: "capped 1 4 60000 = 4" by (simp add: capped_def)
  have "is_double (of_int 1)" by (rule is_double_int) simp
  then have "round64 1 = Fin 1" using round64_double[of 1] by simp
  then have j1: "times64 (Fin 4) (Fin (1 / 4)) = Fin 1" by simp
  have q: "pow2 (- 53) = 1 / 2 ^ 53" by (simp add: pow2_def)
  have "\<bar>of_int (2 ^ 53 - 1) * pow2 (- 53)\<bar> < pow2 1024"
  proof -
    have "\<bar>of_int (2 ^ 53 - 1) * pow2 (- 53)\<bar> < (2::real) ^ 53" unfolding q by simp
    then show ?thesis using pow2_53_less by linarith
  qed
  then have "is_double (of_int (2 ^ 53 - 1) * pow2 (- 53))" by (intro is_doubleI) simp_all
  moreover have "of_int (2 ^ 53 - 1) * pow2 (- 53) = (1 - 1 / 2 ^ 53 :: real)" unfolding q by simp
  ultimately have "is_double (1 - 1 / 2 ^ 53)" by (simp only:)
  then have "round64 (1 - 1 / 2 ^ 53) = Fin (1 - 1 / 2 ^ 53)" by (rule round64_double)
  then have j2: "times64 (Fin 1) (Fin (1 - 1 / 2 ^ 53)) = Fin (1 - 1 / 2 ^ 53)" by simp
  let ?x = "4 + (1 - 1 / 2 ^ 53) :: real"
  have p: "pow2 2 = 4" "pow2 3 = 8" "pow2 (- 50) = 1 / 2 ^ 50" by (simp_all add: pow2_def)
  have ax: "\<bar>?x\<bar> = ?x" by simp
  have u: "ulp_exp ?x = - 50"
    using ulp_exp_binade[of 2 ?x] by (simp add: p)
  have "\<lfloor>?x / pow2 (- 50)\<rfloor> = 5 * 2 ^ 50 - 1"
    unfolding p by (rule floor_unique) simp_all
  then have "round_even (?x / pow2 (- 50)) = 5 * 2 ^ 50"
    unfolding round_even_def Let_def p by simp
  then have "nearest ?x = 5" unfolding nearest_def ax u by (simp add: p)
  moreover have "(5::real) < pow2 1024" using pow2_53_less by simp
  ultimately have "round64 ?x = Fin 5"
    using pow2_pos[of 1024] by (simp add: round64_def Let_def)
  then have s: "plus64 (Fin 4) (Fin (1 - 1 / 2 ^ 53)) = Fin 5" by simp
  show ?thesis
    unfolding calculateBackoffDelay_binary64_def Let_def c v if_True j1 j2 s by simp
qed





section \<open>Properties of the retry envelope\<close>

subsection \<open>The retry loop\<close>

lemma loop_past_end:
  "maxRetries opts < a \<Longrightarrow>
   withRetry_loop fn rnd opts a le evs =
     (Inl (Error (case le of Some m \<Rightarrow> m | None \<Rightarrow> ''All retry attempts failed'')), evs)"
  by (subst withRetry_loop.simps) simp

lemma loop_last_fail:
  assumes "isl (fn (maxRetries opts))"
  shows "withRetry_loop fn rnd opts (maxRetries opts) le evs =
     (Inl (Error (toError (projl (fn (maxRetries opts))))), evs @ [Call (maxRetries opts)])"
proof -
  obtain e where e: "fn (maxRetries opts) = Inl e" using assms by (cases "fn (maxRetries opts)") auto
  show ?thesis
    by (subst withRetry_loop.simps) (simp add: e loop_past_end)
qed

lemma loop_fail_step:
  assumes "a < maxRetries opts" "isl (fn a)" "onRetry_quiet opts"
  shows "withRetry_loop fn rnd opts a le evs =
     withRetry_loop fn rnd opts (a + 1) (Some (toError (projl (fn a))))
       (evs @ failed_attempt_events fn rnd opts a)"
proof -
  obtain e where e: "fn a = Inl e" using assms(2) by (cases "fn a") auto
  show ?thesis
  proof (cases "onRetry opts")
    case None
    then show ?thesis using assms(1)
      by (subst withRetry_loop.simps) (simp add: e failed_attempt_events_def Let_def)
  next
    case (Some cb)
    then have "cb a (toError e) (delayMs_of opts rnd a) = None"
      using assms(3) by (simp add: onRetry_quiet_def)
    then show ?thesis using assms(1) Some
      by (subst withRetry_loop.simps) (simp add: e failed_attempt_events_def Let_def)
  qed
qed

lemma loop_all_fail:
  assumes "onRetry_quiet opts"
  shows "nat (maxRetries opts - a) = n \<Longrightarrow> a \<le> maxRetries opts \<Longrightarrow>
     \<forall>k. a \<le> k \<and> k \<le> maxRetries opts \<longrightarrow> isl (fn k) \<Longrightarrow>
     withRetry_loop fn rnd opts a le evs =
       (Inl (Error (toError (projl (fn (maxRetries opts))))),
        evs @ concat (map (failed_attempt_events fn rnd opts) [a..maxRetries opts - 1])
            @ [Call (maxRetries opts)])"
proof (induction n arbitrary: a le evs)
  case 0
  then have a: "a = maxRetries opts" by simp
  have "isl (fn (maxRetries opts))" using 0(3) a by simp
  then show ?case unfolding a by (simp add: loop_last_fail)
next
  case (Suc n)
  then have lt: "a < maxRetries opts" by simp
  have fa: "isl (fn a)" using Suc.prems by simp
  have up: "[a..maxRetries opts - 1] = a # [a + 1..maxRetries opts - 1]"
    using lt by (simp add: upto_rec1)
  have "withRetry_loop fn rnd opts (a + 1) (Some (toError (projl (fn a))))
          (evs @ failed_attempt_events fn rnd opts a) =
       (Inl (Error (toError (projl (fn (maxRetries opts))))),
        (evs @ failed_attempt_events fn rnd opts a)
          @ concat (map (failed_attempt_events fn rnd opts) [a + 1..maxRetries opts - 1])
          @ [Call (maxRetries opts)])"
    using Suc.prems lt by (intro Suc.IH) auto
  then show ?case
    unfolding loop_fail_step[where fn=fn and a=a, OF lt fa assms] up by simp
qed

lemma calls_append: "calls (xs @ ys) = calls xs @ calls ys"
  by (induction xs rule: calls.induct) auto

lemma calls_failed_attempt: "calls (failed_attempt_events fn rnd opts k) = [k]"
  by (simp add: failed_attempt_events_def split: option.splits)

lemma calls_concat_failed:
  "calls (concat (map (failed_attempt_events fn rnd opts) ks)) = ks"
  by (induction ks) (auto simp: calls_append calls_failed_attempt)

lemma upto_snoc_last: "(1::int) \<le> m \<Longrightarrow> [1..m - 1] @ [m] = [1..m]"
  using upto_rec2[of 1 m] by simp

lemma withRetry_all_fail:
  assumes "1 \<le> maxRetries opts" "onRetry_quiet opts"
    and "\<forall>k. 1 \<le> k \<and> k \<le> maxRetries opts \<longrightarrow> isl (fn k)"
  shows "withRetry fn rnd opts =
       (Inl (Error (toError (projl (fn (maxRetries opts))))),
        concat (map (failed_attempt_events fn rnd opts) [1..maxRetries opts - 1]) @ [Call (maxRetries opts)])"
  unfolding withRetry_def
  using loop_all_fail[OF assms(2) refl assms(1) assms(3), of rnd None "[]"] by simp

lemma withRetry_all_fail_calls:
  assumes "1 \<le> maxRetries opts" "onRetry_quiet opts"
    and "\<forall>k. 1 \<le> k \<and> k \<le> maxRetries opts \<longrightarrow> isl (fn k)"
  shows "calls (snd (withRetry fn rnd opts)) = [1..maxRetries opts]"
  unfolding withRetry_all_fail[OF assms]
  by (simp add: calls_append calls_concat_failed upto_snoc_last[OF assms(1)])

lemma shape_failed_attempt:
  "map shape (failed_attempt_events fn rnd opts k) =
     [Call k, LogWarn k []] @ (case onRetry opts of None \<Rightarrow> [] | Some cb \<Rightarrow> [OnRetry k [] (delayMs_of opts rnd k)])
       @ [LogDebug (delayMs_of opts rnd k), Sleep (delayMs_of opts rnd k)]"
  by (simp add: failed_attempt_events_def split: option.splits)

lemma loop_success:
  assumes "a \<le> maxRetries opts" "\<not> isl (fn a)"
  shows "withRetry_loop fn rnd opts a le evs = (Inr (projr (fn a)), evs @ [Call a])"
proof -
  obtain v where v: "fn a = Inr v" using assms(2) by (cases "fn a") auto
  show ?thesis using assms(1) by (subst withRetry_loop.simps) (simp add: v)
qed

lemma loop_shape:
  assumes "onRetry_quiet opts" "\<forall>k. isl (fn1 k) = isl (fn2 k)"
  shows "nat (maxRetries opts + 1 - a) = n \<Longrightarrow> map shape evs1 = map shape evs2 \<Longrightarrow>
     map shape (snd (withRetry_loop fn1 rnd opts a le1 evs1)) =
     map shape (snd (withRetry_loop fn2 rnd opts a le2 evs2)) \<and>
     isl (fst (withRetry_loop fn1 rnd opts a le1 evs1)) =
     isl (fst (withRetry_loop fn2 rnd opts a le2 evs2))"
proof (induction n arbitrary: a le1 le2 evs1 evs2)
  case 0
  then have "maxRetries opts < a" by simp
  then show ?case using 0 by (simp add: loop_past_end)
next
  case (Suc n)
  then have le: "a \<le> maxRetries opts" by simp
  show ?case
  proof (cases "isl (fn1 a)")
    case False
    then have "\<not> isl (fn2 a)" using assms(2) by simp
    then show ?thesis using False Suc.prems(2) by (simp add: loop_success[OF le])
  next
    case True
    then have t2: "isl (fn2 a)" using assms(2) by simp
    show ?thesis
    proof (cases "a < maxRetries opts")
      case lt: True
      have sh: "map shape (evs1 @ failed_attempt_events fn1 rnd opts a) =
                map shape (evs2 @ failed_attempt_events fn2 rnd opts a)"
        using Suc.prems(2) by (simp add: shape_failed_attempt)
      have n: "nat (maxRetries opts + 1 - (a + 1)) = n" using Suc.prems(1) by simp
      show ?thesis
        unfolding loop_fail_step[where fn=fn1 and a=a, OF lt True assms(1)]
          loop_fail_step[where fn=fn2 and a=a, OF lt t2 assms(1)]
        by (rule Suc.IH[OF n sh])
    next
      case False
      then have a: "a = maxRetries opts" using le by simp
      show ?thesis using True t2 Suc.prems(2) unfolding a by (simp add: loop_last_fail)
    qed
  qed
qed



text \<open>
  Claim C9.  \<open>withRetry\<close> never looks at what an error says.  Two operations that fail in
  the same attempts, with whatever errors, are called in the same attempts, with the same
  callbacks and the same sleeps, and both settle the same way; in particular an operation
  whose every error the classifier \<open>isRetryableError\<close> rejects is still retried until the
  attempt ceiling is exhausted.
\<close>

theorem withRetry_classification_advisory:
  assumes "onRetry_quiet opts" "\<forall>k. isl (fn1 k) = isl (fn2 k)"
  shows "map shape (snd (withRetry fn1 rnd opts)) = map shape (snd (withRetry fn2 rnd opts))
       \<and> isl (fst (withRetry fn1 rnd opts)) = isl (fst (withRetry fn2 rnd opts))
       \<and> (1 \<le> maxRetries opts
            \<and> (\<forall>k. 1 \<le> k \<and> k \<le> maxRetries opts \<longrightarrow>
                  isl (fn1 k) \<and> \<not> isRetryableError (toError (projl (fn1 k))))
            \<longrightarrow> calls (snd (withRetry fn1 rnd opts)) = [1..maxRetries opts])"
proof -
  have "map shape (snd (withRetry fn1 rnd opts)) = map shape (snd (withRetry fn2 rnd opts))
       \<and> isl (fst (withRetry fn1 rnd opts)) = isl (fst (withRetry fn2 rnd opts))"
    unfolding withRetry_def
    using loop_shape[OF assms refl, of "[]" "[]" rnd 1 None None] by simp
  moreover have "1 \<le> maxRetries opts
            \<and> (\<forall>k. 1 \<le> k \<and> k \<le> maxRetries opts \<longrightarrow>
                  isl (fn1 k) \<and> \<not> isRetryableError (toError (projl (fn1 k))))
            \<longrightarrow> calls (snd (withRetry fn1 rnd opts)) = [1..maxRetries opts]"
    using withRetry_all_fail_calls[OF _ assms(1), of fn1 rnd] by blast
  ultimately show ?thesis by blast
qed

theorem withRetry_classification_advisory_witness:
  "\<not> isRetryableError ''syntax error''
   \<and> isRetryableError ''Rate limit exceeded''
   \<and> map shape (snd (withRetry (always_fails ''syntax error'') no_random example_opts)) =
       map shape (snd (withRetry (always_fails ''Rate limit exceeded'') no_random example_opts))
   \<and> calls (snd (withRetry (always_fails ''syntax error'') no_random example_opts)) = [1, 2, 3]"
proof -
  have c1: "\<not> isRetryableError ''syntax error''"
    by (simp add: isRetryableError_def retryablePatterns_def pattern_test_def toLowerCase_def)
  have c2: "isRetryableError ''Rate limit exceeded''"
    by (simp add: isRetryableError_def retryablePatterns_def pattern_test_def toLowerCase_def)
  have h1: "onRetry_quiet example_opts" by (simp add: example_opts_def onRetry_quiet_def)
  have h2: "\<forall>k. isl (always_fails ''syntax error'' k) = isl (always_fails ''Rate limit exceeded'' k)"
    by (simp add: always_fails_def)
  have u: "[1..maxRetries example_opts] = [1, 2, 3]"
    by (simp add: example_opts_def upto.simps)
  have p: "projl (always_fails ''syntax error'' k) = Error ''syntax error''" for k
    by (simp add: always_fails_def)
  have i: "isl (always_fails ''syntax error'' k)" for k
    by (simp add: always_fails_def)
  have m: "1 \<le> maxRetries example_opts" by (simp add: example_opts_def)
  show ?thesis
    using withRetry_classification_advisory[OF h1 h2, of no_random] c1 c2 m
    unfolding u by (simp add: p i)
qed

section \<open>Properties of the markdown task source\<close>

lemma split_nl_nonempty: "split_nl s \<noteq> []"
  by (induction s) (auto split: list.splits)

lemma split_nl_no_LF: "l \<in> set (split_nl s) \<Longrightarrow> LF \<notin> set l"
  by (induction s arbitrary: l) (auto split: list.splits if_splits)

lemma split_nl_chars: "l \<in> set (split_nl s) \<Longrightarrow> set l \<subseteq> set s"
proof (induction s arbitrary: l)
  case Nil
  then show ?case by simp
next
  case (Cons c cs)
  show ?case
  proof (cases "c = LF")
    case True
    then show ?thesis using Cons by auto
  next
    case False
    obtain h t where ht: "split_nl cs = h # t"
      using split_nl_nonempty[of cs] by (cases "split_nl cs") auto
    have "set h \<subseteq> set cs" using Cons.IH[of h] ht by simp
    moreover have "l' \<in> set t \<Longrightarrow> set l' \<subseteq> set cs" for l'
      using Cons.IH[of l'] ht by simp
    ultimately show ?thesis using Cons.prems False ht by auto
  qed
qed

lemma split_nl_line: "LF \<notin> set l \<Longrightarrow> split_nl l = [l]"
  by (induction l) auto

lemma split_nl_append: "LF \<notin> set l \<Longrightarrow> split_nl (l @ LF # r) = l # split_nl r"
  by (induction l) (auto split: list.splits)

lemma split_join:
  "ls \<noteq> [] \<Longrightarrow> list_all (\<lambda>l. LF \<notin> set l) ls \<Longrightarrow> split_nl (join_nl ls) = ls"
proof (induction ls rule: join_nl.induct)
  case 1
  then show ?case by simp
next
  case (2 l)
  then show ?case by (simp add: split_nl_line)
next
  case (3 l v va)
  then show ?case by (simp add: split_nl_append)
qed

lemma join_nl_chars: "set (join_nl ls) \<subseteq> \<Union> (set ` set ls) \<union> {LF}"
  by (induction ls rule: join_nl.induct) auto

lemma replace_crlf_id: "CR \<notin> set s \<Longrightarrow> replace_crlf s = s"
  by (induction s rule: replace_crlf.induct) auto

lemma replace_cr_id: "CR \<notin> set s \<Longrightarrow> replace_cr s = s"
  by (induction s) (auto simp: replace_cr_def)

lemma replace_cr_no_CR: "CR \<notin> set (replace_cr s)"
  by (auto simp: replace_cr_def)

lemma readFileNormalized_no_CR: "CR \<notin> set (readFileNormalized raw)"
  by (simp add: readFileNormalized_def replace_cr_no_CR)

lemma readFileNormalized_id: "CR \<notin> set s \<Longrightarrow> readFileNormalized s = s"
  by (simp add: readFileNormalized_def replace_crlf_id replace_cr_id)

lemma file_lines_nonempty: "file_lines f \<noteq> []"
  by (simp add: file_lines_def split_nl_nonempty)

lemma file_lines_no_LF: "l \<in> set (file_lines f) \<Longrightarrow> LF \<notin> set l"
  unfolding file_lines_def by (rule split_nl_no_LF)

lemma file_lines_no_CR: "l \<in> set (file_lines f) \<Longrightarrow> CR \<notin> set l"
  unfolding file_lines_def using split_nl_chars readFileNormalized_no_CR by blast

lemma replaceIncomplete_chars: "set (replaceIncomplete l) \<subseteq> set l \<union> set ''- [x] ''"
  using set_drop_subset[of 6 l] by (auto simp: replaceIncomplete_def)

lemma starts_with_append: "starts_with p (p @ r)"
  by (induction p) auto

lemma starts_with_take: "starts_with p l \<Longrightarrow> take (length p) l = p"
  by (induction p l rule: starts_with.induct) auto

lemma replaceIncomplete_idem: "replaceIncomplete (replaceIncomplete l) = replaceIncomplete l"
proof (cases "starts_with ''- [ ] '' l")
  case True
  have "\<not> starts_with ''- [ ] '' (''- [x] '' @ drop 6 l)" by simp
  then show ?thesis using True by (simp add: replaceIncomplete_def)
next
  case False
  then show ?thesis by (simp add: replaceIncomplete_def)
qed

lemma completedTest_replaced: "starts_with ''- [ ] '' l \<Longrightarrow> completedTest (replaceIncomplete l)"
  by (simp add: replaceIncomplete_def completedTest_def toLowerCase_def)

lemma not_completed_incomplete: "starts_with ''- [ ] '' l \<Longrightarrow> \<not> completedTest l"
proof -
  assume "starts_with ''- [ ] '' l"
  then have "take (length ''- [ ] '') l = ''- [ ] ''" by (rule starts_with_take)
  moreover have "length ''- [ ] '' = 6" by simp
  ultimately have "take 6 l = ''- [ ] ''" by (simp only:)
  then show ?thesis by (simp add: completedTest_def toLowerCase_def)
qed

lemma replaceIncomplete_unchanged: "\<not> starts_with ''- [ ] '' l \<Longrightarrow> replaceIncomplete l = l"
  by (simp add: replaceIncomplete_def)

lemma scan_lines_completed:
  "snd (snd (scan_lines i ls (ts, r, d))) = d + length (filter completedTest ls)"
  by (induction ls arbitrary: i ts r d) (auto split: option.splits)

lemma completedCount_parse_file:
  "completedCount (parse_file f) = length (filter completedTest (file_lines f))"
proof -
  obtain ts r d where e: "scan_lines 0 (file_lines f) ([], 0, 0) = (ts, r, d)"
    by (metis prod_cases3)
  then have "d = length (filter completedTest (file_lines f))"
    using scan_lines_completed[of 0 "file_lines f" "[]" 0 0] by simp
  then show ?thesis using e by (simp add: parse_file_def file_lines_def Let_def)
qed

lemma filter_count_update:
  "k < length xs \<Longrightarrow>
   length (filter P (xs[k := y])) + (if P (xs ! k) then 1 else 0) =
   length (filter P xs) + (if P y then 1 else 0)"
proof (induction xs arbitrary: k)
  case Nil
  then show ?case by simp
next
  case (Cons x xs)
  then show ?case by (cases k) auto
qed

text \<open>The line a valid id names, rewritten.\<close>

lemma markComplete_missing:
  "disk_file s = None \<Longrightarrow> markComplete now ident s = (Inl ENOENT, s\<lparr>cache := None\<rparr>)"
  by (simp add: markComplete_def invalidateCache_def)

lemma markComplete_nan:
  "disk_file s = Some f \<Longrightarrow> parseInt10 ident = None \<Longrightarrow>
   markComplete now ident s = (Inr (), s\<lparr>cache := None\<rparr>)"
  by (simp add: markComplete_def invalidateCache_def)

lemma markComplete_out_of_range:
  "disk_file s = Some f \<Longrightarrow> parseInt10 ident = Some n \<Longrightarrow>
   n - 1 < 0 \<or> int (length (file_lines f)) \<le> n - 1 \<Longrightarrow>
   markComplete now ident s = (Inr (), s\<lparr>cache := None\<rparr>)"
  by (auto simp: markComplete_def invalidateCache_def file_lines_def Let_def)

lemma markComplete_in_range:
  "disk_file s = Some f \<Longrightarrow> parseInt10 ident = Some n \<Longrightarrow>
   0 \<le> n - 1 \<Longrightarrow> n - 1 < int (length (file_lines f)) \<Longrightarrow>
   markComplete now ident s =
     (Inr (), s\<lparr>cache := None,
        disk_file := Some \<lparr>data = join_nl ((file_lines f)[nat (n - 1) :=
                       replaceIncomplete (file_lines f ! nat (n - 1))]), mtimeMs = now\<rparr>\<rparr>)"
  by (simp add: markComplete_def invalidateCache_def file_lines_def Let_def)

lemma updated_lines_ok:
  "list_all (\<lambda>l. LF \<notin> set l) ((file_lines f)[k := replaceIncomplete (file_lines f ! k)])
   \<and> list_all (\<lambda>l. CR \<notin> set l) ((file_lines f)[k := replaceIncomplete (file_lines f ! k)])"
proof (cases "k < length (file_lines f)")
  case False
  then have "(file_lines f)[k := replaceIncomplete (file_lines f ! k)] = file_lines f"
    by (simp add: list_update_beyond)
  then show ?thesis
    using file_lines_no_LF[of _ f] file_lines_no_CR[of _ f] by (simp add: list_all_iff)
next
  case True
  then have m: "file_lines f ! k \<in> set (file_lines f)" by simp
  have "LF \<notin> set (replaceIncomplete (file_lines f ! k))"
    using replaceIncomplete_chars[of "file_lines f ! k"] file_lines_no_LF[OF m] by auto
  moreover have "CR \<notin> set (replaceIncomplete (file_lines f ! k))"
    using replaceIncomplete_chars[of "file_lines f ! k"] file_lines_no_CR[OF m] by auto
  ultimately show ?thesis
    using file_lines_no_LF[of _ f] file_lines_no_CR[of _ f] set_update_subset_insert[of "file_lines f" k]
    by (auto simp: list_all_iff)
qed

lemma file_lines_written:
  "file_lines \<lparr>data = join_nl ((file_lines f)[k := replaceIncomplete (file_lines f ! k)]), mtimeMs = t\<rparr>
     = (file_lines f)[k := replaceIncomplete (file_lines f ! k)]"
proof -
  let ?ls = "(file_lines f)[k := replaceIncomplete (file_lines f ! k)]"
  have ne: "?ls \<noteq> []" using file_lines_nonempty[of f] by simp
  have "CR \<notin> set (join_nl ?ls)"
    using join_nl_chars[of ?ls] updated_lines_ok[of f k] by (auto simp: list_all_iff)
  then have "readFileNormalized (join_nl ?ls) = join_nl ?ls" by (rule readFileNormalized_id)
  then show ?thesis
    using split_join[OF ne] updated_lines_ok[of f k] by (simp add: file_lines_def)
qed

lemma countCompleted_no_cache:
  "disk_file s = Some f \<Longrightarrow> cache s = None \<Longrightarrow>
   fst (countCompleted s) = Inr (length (filter completedTest (file_lines f)))"
  by (simp add: countCompleted_def getCache_def loadCache_def Let_def completedCount_parse_file)

lemma countCompleted_fresh:
  "disk_file s = Some f \<Longrightarrow> cache_fresh s \<Longrightarrow>
   fst (countCompleted s) = Inr (length (filter completedTest (file_lines f)))"
  by (auto simp: countCompleted_def getCache_def loadCache_def Let_def completedCount_parse_file
      cache_fresh_def split: option.splits if_splits)

lemma countCompleted_keeps_fresh:
  "cache_fresh s \<Longrightarrow> cache_fresh (snd (countCompleted s)) \<and> disk_file (snd (countCompleted s)) = disk_file s"
  by (auto simp: countCompleted_def getCache_def loadCache_def Let_def cache_fresh_def getFileMtime_def
      split: option.splits if_splits)

lemma markComplete_state:
  assumes "disk_file s = Some f"
  shows "cache (snd (markComplete now ident s)) = None
       \<and> (\<exists>f'. disk_file (snd (markComplete now ident s)) = Some f'
              \<and> length (filter completedTest (file_lines f)) \<le> length (filter completedTest (file_lines f'))
              \<and> length (filter completedTest (file_lines f')) \<le> length (filter completedTest (file_lines f)) + 1)"
proof (cases "parseInt10 ident")
  case None
  then show ?thesis using assms by (simp add: markComplete_nan)
next
  case (Some n)
  show ?thesis
  proof (cases "0 \<le> n - 1 \<and> n - 1 < int (length (file_lines f))")
    case False
    then have "n - 1 < 0 \<or> int (length (file_lines f)) \<le> n - 1" by linarith
    then show ?thesis using assms Some by (simp add: markComplete_out_of_range)
  next
    case True
    let ?k = "nat (n - 1)"
    have k: "?k < length (file_lines f)" using True by linarith
    have c: "length (filter completedTest ((file_lines f)[?k := replaceIncomplete (file_lines f ! ?k)]))
               + (if completedTest (file_lines f ! ?k) then 1 else 0)
           = length (filter completedTest (file_lines f))
               + (if completedTest (replaceIncomplete (file_lines f ! ?k)) then 1 else 0)"
      by (rule filter_count_update[OF k])
    have i: "completedTest (file_lines f ! ?k) \<Longrightarrow> completedTest (replaceIncomplete (file_lines f ! ?k))"
      using not_completed_incomplete[of "file_lines f ! ?k"] replaceIncomplete_unchanged[of "file_lines f ! ?k"]
      by (cases "starts_with ''- [ ] '' (file_lines f ! ?k)") auto
    have "length (filter completedTest (file_lines f))
            \<le> length (filter completedTest ((file_lines f)[?k := replaceIncomplete (file_lines f ! ?k)]))
        \<and> length (filter completedTest ((file_lines f)[?k := replaceIncomplete (file_lines f ! ?k)]))
            \<le> length (filter completedTest (file_lines f)) + 1"
      using c i by (auto split: if_splits)
    then show ?thesis
      using assms Some True by (simp add: markComplete_in_range file_lines_written)
  qed
qed

lemma cache_fresh_no_cache: "cache s = None \<Longrightarrow> cache_fresh s"
  by (simp add: cache_fresh_def)

lemma markCompleteAll_count:
  "disk_file s = Some f \<Longrightarrow> cache_fresh s \<Longrightarrow>
   \<exists>f'. disk_file (markCompleteAll marks s) = Some f' \<and> cache_fresh (markCompleteAll marks s)
        \<and> length (filter completedTest (file_lines f)) \<le> length (filter completedTest (file_lines f'))"
proof (induction marks arbitrary: s f)
  case Nil
  then show ?case by simp
next
  case (Cons c marks)
  obtain now ident where c: "c = (now, ident)" by (cases c)
  obtain f1 where f1: "disk_file (snd (markComplete now ident s)) = Some f1"
      "cache (snd (markComplete now ident s)) = None"
      "length (filter completedTest (file_lines f)) \<le> length (filter completedTest (file_lines f1))"
    using markComplete_state[OF Cons.prems(1), of now ident] by blast
  obtain f' where "disk_file (markCompleteAll marks (snd (markComplete now ident s))) = Some f'"
      "cache_fresh (markCompleteAll marks (snd (markComplete now ident s)))"
      "length (filter completedTest (file_lines f1)) \<le> length (filter completedTest (file_lines f'))"
    using Cons.IH[OF f1(1) cache_fresh_no_cache[OF f1(2)]] by blast
  then show ?case using f1(3) c by auto
qed

lemma markCompleteAll_monotone:
  assumes "disk_file s = Some f" "cache_fresh s"
  shows "\<exists>n m. fst (countCompleted s) = Inr n \<and> fst (countCompleted (markCompleteAll marks s)) = Inr m \<and> n \<le> m"
proof -
  obtain f' where f': "disk_file (markCompleteAll marks s) = Some f'" "cache_fresh (markCompleteAll marks s)"
      "length (filter completedTest (file_lines f)) \<le> length (filter completedTest (file_lines f'))"
    using markCompleteAll_count[OF assms] by blast
  show ?thesis
    using countCompleted_fresh[OF assms] countCompleted_fresh[OF f'(1,2)] f'(3) by simp
qed

lemma markComplete_twice:
  assumes "disk_file s = Some f"
  shows "map_option data (disk_file (snd (markComplete t2 ident (snd (markComplete t1 ident s)))))
           = map_option data (disk_file (snd (markComplete t1 ident s)))
       \<and> cache (snd (markComplete t2 ident (snd (markComplete t1 ident s)))) = None
       \<and> cache (snd (markComplete t1 ident s)) = None"
proof (cases "parseInt10 ident")
  case None
  then show ?thesis using assms by (simp add: markComplete_nan)
next
  case (Some n)
  show ?thesis
  proof (cases "0 \<le> n - 1 \<and> n - 1 < int (length (file_lines f))")
    case False
    then have "n - 1 < 0 \<or> int (length (file_lines f)) \<le> n - 1" by linarith
    then show ?thesis using assms Some by (simp add: markComplete_out_of_range)
  next
    case True
    let ?k = "nat (n - 1)"
    let ?L = "(file_lines f)[?k := replaceIncomplete (file_lines f ! ?k)]"
    let ?f1 = "\<lparr>data = join_nl ?L, mtimeMs = t1\<rparr>"
    let ?s1 = "s\<lparr>cache := None, disk_file := Some ?f1\<rparr>"
    have k: "?k < length (file_lines f)" using True by linarith
    have s1: "markComplete t1 ident s = (Inr (), ?s1)"
      using assms Some True by (simp add: markComplete_in_range)
    have L1: "file_lines ?f1 = ?L" by (rule file_lines_written)
    have d1: "disk_file ?s1 = Some ?f1" by simp
    have r1: "0 \<le> n - 1" "n - 1 < int (length (file_lines ?f1))" using True L1 by simp_all
    have LL: "(file_lines ?f1)[?k := replaceIncomplete (file_lines ?f1 ! ?k)] = ?L"
      unfolding L1 using k by (simp add: replaceIncomplete_idem)
    show ?thesis
      unfolding s1 snd_conv markComplete_in_range[OF d1 Some r1] LL by simp
  qed
qed

lemma markComplete_lines:
  assumes "disk_file s = Some f" "parseInt10 ident = Some n" "0 \<le> n - 1" "n - 1 < int (length (file_lines f))"
  shows "\<exists>f'. disk_file (snd (markComplete now ident s)) = Some f'
            \<and> file_lines f' = (file_lines f)[nat (n - 1) := replaceIncomplete (file_lines f ! nat (n - 1))]"
  by (simp add: markComplete_in_range[OF assms] file_lines_written)

lemma starts_with_iff_take: "starts_with p l = (take (length p) l = p)"
  by (induction p l rule: starts_with.induct) auto

lemma replaceIncomplete_flip:
  "replaceIncomplete l = (if take 6 l = ''- [ ] '' then ''- [x] '' @ drop 6 l else l)"
proof -
  have "starts_with ''- [ ] '' l = (take (length ''- [ ] '') l = ''- [ ] '')"
    by (rule starts_with_iff_take)
  moreover have "length ''- [ ] '' = 6" by simp
  ultimately have "starts_with ''- [ ] '' l = (take 6 l = ''- [ ] '')" by (simp only:)
  then show ?thesis by (simp only: replaceIncomplete_def)
qed

lemma completedTest_flip:
  "completedTest (replaceIncomplete l) = (completedTest l \<or> take 6 l = ''- [ ] '')"
proof (cases "take 6 l = ''- [ ] ''")
  case True
  then have "replaceIncomplete l = ''- [x] '' @ drop 6 l" by (simp add: replaceIncomplete_flip)
  then show ?thesis using True by (simp add: completedTest_def toLowerCase_def)
next
  case False
  then have "replaceIncomplete l = l" by (simp add: replaceIncomplete_flip)
  then show ?thesis using False by simp
qed

lemma not_completedTest_incomplete: "take 6 l = ''- [ ] '' \<Longrightarrow> \<not> completedTest l"
  by (simp add: completedTest_def toLowerCase_def)

lemma markComplete_count:
  assumes "disk_file s = Some f" "cache_fresh s"
  shows "fst (countCompleted s) = Inr (length (filter completedTest (file_lines f)))
       \<and> fst (countCompleted (snd (markComplete now ident s))) =
           Inr (length (filter completedTest (file_lines f))
                + (case parseInt10 ident of
                     None \<Rightarrow> 0
                   | Some n \<Rightarrow> if 0 \<le> n - 1 \<and> n - 1 < int (length (file_lines f))
                                  \<and> take 6 (file_lines f ! nat (n - 1)) = ''- [ ] '' then 1 else 0))"
proof -
  have c0: "fst (countCompleted s) = Inr (length (filter completedTest (file_lines f)))"
    by (rule countCompleted_fresh[OF assms])
  have c1: "fst (countCompleted (snd (markComplete now ident s))) =
           Inr (length (filter completedTest (file_lines f))
                + (case parseInt10 ident of
                     None \<Rightarrow> 0
                   | Some n \<Rightarrow> if 0 \<le> n - 1 \<and> n - 1 < int (length (file_lines f))
                                  \<and> take 6 (file_lines f ! nat (n - 1)) = ''- [ ] '' then 1 else 0))"
  proof (cases "parseInt10 ident")
    case None
    have "fst (countCompleted (s\<lparr>cache := None\<rparr>)) = Inr (length (filter completedTest (file_lines f)))"
      using countCompleted_no_cache[of "s\<lparr>cache := None\<rparr>" f] assms(1) by simp
    then show ?thesis using assms(1) None by (simp add: markComplete_nan)
  next
    case (Some n)
    show ?thesis
    proof (cases "0 \<le> n - 1 \<and> n - 1 < int (length (file_lines f))")
      case False
      then have o: "n - 1 < 0 \<or> int (length (file_lines f)) \<le> n - 1" by linarith
      have "fst (countCompleted (s\<lparr>cache := None\<rparr>)) = Inr (length (filter completedTest (file_lines f)))"
        using countCompleted_no_cache[of "s\<lparr>cache := None\<rparr>" f] assms(1) by simp
      moreover have "(if 0 \<le> n - 1 \<and> n - 1 < int (length (file_lines f))
                                  \<and> take 6 (file_lines f ! nat (n - 1)) = ''- [ ] '' then 1 else 0) = (0::nat)"
        using False by auto
      ultimately show ?thesis
        unfolding markComplete_out_of_range[OF assms(1) Some o] snd_conv Some option.case by (simp only: add_0_right)
    next
      case True
      let ?k = "nat (n - 1)"
      let ?ls = "(file_lines f)[?k := replaceIncomplete (file_lines f ! ?k)]"
      let ?f' = "\<lparr>data = join_nl ?ls, mtimeMs = now\<rparr>"
      have k: "?k < length (file_lines f)" using True by linarith
      have m: "markComplete now ident s = (Inr (), s\<lparr>cache := None, disk_file := Some ?f'\<rparr>)"
        using markComplete_in_range[OF assms(1) Some] True by simp
      have w: "file_lines ?f' = ?ls" by (rule file_lines_written)
      have "fst (countCompleted (s\<lparr>cache := None, disk_file := Some ?f'\<rparr>))
              = Inr (length (filter completedTest (file_lines ?f')))"
        by (rule countCompleted_no_cache) simp_all
      then have c: "fst (countCompleted (snd (markComplete now ident s))) = Inr (length (filter completedTest ?ls))"
        unfolding m snd_conv w .
      have u: "length (filter completedTest ?ls) + (if completedTest (file_lines f ! ?k) then 1 else 0)
           = length (filter completedTest (file_lines f))
               + (if completedTest (replaceIncomplete (file_lines f ! ?k)) then 1 else 0)"
        by (rule filter_count_update[OF k])
      have "length (filter completedTest ?ls)
              = length (filter completedTest (file_lines f))
                + (if take 6 (file_lines f ! ?k) = ''- [ ] '' then 1 else 0)"
        using u not_completedTest_incomplete[of "file_lines f ! ?k"]
        unfolding completedTest_flip by (auto split: if_splits)
      then show ?thesis using c Some True by simp
    qed
  qed
  show ?thesis using c0 c1 by (rule conjI)
qed

text \<open>
  Claim C10.  On an existing file and a cache that is not stale: a second
  \<open>markComplete(id)\<close> leaves the file content as the first call left it, and the completed
  count too; after any run of \<open>markComplete\<close> calls \<open>countCompleted\<close> is at least what it was
  before; an id that does not parse or names a line outside the file leaves the file as it
  is; an id naming a line of the file leaves the number of lines and every other line, as
  read with normalised line ends, what they were, and the line it names becomes \<open>- [x] \<close>
  followed by what came after its first six characters when these were \<open>- [ ] \<close>, and stays
  as it is otherwise; the first call adds one to the completed count in the former case and
  nothing in every other.
\<close>

theorem markComplete_idempotent_monotone:
  assumes "disk_file s = Some f" "cache_fresh s"
  shows "map_option data (disk_file (snd (markComplete t2 ident (snd (markComplete t1 ident s)))))
           = map_option data (disk_file (snd (markComplete t1 ident s)))
       \<and> fst (countCompleted (snd (markComplete t2 ident (snd (markComplete t1 ident s)))))
           = fst (countCompleted (snd (markComplete t1 ident s)))
       \<and> (\<exists>n m. fst (countCompleted s) = Inr n
              \<and> fst (countCompleted (markCompleteAll marks s)) = Inr m \<and> n \<le> m)
       \<and> ((case parseInt10 ident of None \<Rightarrow> True
            | Some n \<Rightarrow> n - 1 < 0 \<or> int (length (file_lines f)) \<le> n - 1)
           \<longrightarrow> disk_file (snd (markComplete t1 ident s)) = disk_file s)
       \<and> (\<forall>n. parseInt10 ident = Some n \<and> 0 \<le> n - 1 \<and> n - 1 < int (length (file_lines f))
           \<longrightarrow> (\<exists>f'. disk_file (snd (markComplete t1 ident s)) = Some f'
                 \<and> length (file_lines f') = length (file_lines f)
                 \<and> file_lines f' ! nat (n - 1) =
                     (if take 6 (file_lines f ! nat (n - 1)) = ''- [ ] ''
                      then ''- [x] '' @ drop 6 (file_lines f ! nat (n - 1))
                      else file_lines f ! nat (n - 1))
                 \<and> (\<forall>j. j \<noteq> nat (n - 1) \<longrightarrow> file_lines f' ! j = file_lines f ! j)))
       \<and> (\<exists>c. fst (countCompleted s) = Inr c
              \<and> fst (countCompleted (snd (markComplete t1 ident s))) =
                  Inr (c + (case parseInt10 ident of
                              None \<Rightarrow> 0
                            | Some n \<Rightarrow>
                                if 0 \<le> n - 1 \<and> n - 1 < int (length (file_lines f))
                                   \<and> take 6 (file_lines f ! nat (n - 1)) = ''- [ ] '' then 1 else 0)))"
proof -
  let ?s1 = "snd (markComplete t1 ident s)"
  let ?s2 = "snd (markComplete t2 ident ?s1)"
  have tw: "map_option data (disk_file ?s2) = map_option data (disk_file ?s1)"
      "cache ?s2 = None" "cache ?s1 = None"
    using markComplete_twice[OF assms(1), of t2 ident t1] by simp_all
  obtain f1 where f1: "disk_file ?s1 = Some f1"
    using markComplete_state[OF assms(1), of t1 ident] by blast
  obtain f2 where f2: "disk_file ?s2 = Some f2"
    using markComplete_state[OF f1, of t2 ident] by blast
  have "data f2 = data f1" using tw(1) f1 f2 by simp
  then have "file_lines f2 = file_lines f1" by (simp add: file_lines_def)
  then have c: "fst (countCompleted ?s2) = fst (countCompleted ?s1)"
    using countCompleted_no_cache[OF f1 tw(3)] countCompleted_no_cache[OF f2 tw(2)] by simp
  have m: "\<exists>n m. fst (countCompleted s) = Inr n
              \<and> fst (countCompleted (markCompleteAll marks s)) = Inr m \<and> n \<le> m"
    by (rule markCompleteAll_monotone[OF assms])
  have o: "(case parseInt10 ident of None \<Rightarrow> True
            | Some n \<Rightarrow> n - 1 < 0 \<or> int (length (file_lines f)) \<le> n - 1)
           \<longrightarrow> disk_file ?s1 = disk_file s"
    using assms(1) by (auto simp: markComplete_nan markComplete_out_of_range split: option.splits)
  have v: "\<forall>n. parseInt10 ident = Some n \<and> 0 \<le> n - 1 \<and> n - 1 < int (length (file_lines f))
           \<longrightarrow> (\<exists>f'. disk_file ?s1 = Some f'
                 \<and> length (file_lines f') = length (file_lines f)
                 \<and> file_lines f' ! nat (n - 1) =
                     (if take 6 (file_lines f ! nat (n - 1)) = ''- [ ] ''
                      then ''- [x] '' @ drop 6 (file_lines f ! nat (n - 1))
                      else file_lines f ! nat (n - 1))
                 \<and> (\<forall>j. j \<noteq> nat (n - 1) \<longrightarrow> file_lines f' ! j = file_lines f ! j))"
  proof (intro allI impI)
    fix n
    assume a: "parseInt10 ident = Some n \<and> 0 \<le> n - 1 \<and> n - 1 < int (length (file_lines f))"
    then obtain f' where f': "disk_file ?s1 = Some f'"
        "file_lines f' = (file_lines f)[nat (n - 1) := replaceIncomplete (file_lines f ! nat (n - 1))]"
      using markComplete_lines[OF assms(1), of ident n t1] by blast
    have k: "nat (n - 1) < length (file_lines f)" using a by linarith
    have "file_lines f' ! nat (n - 1) = replaceIncomplete (file_lines f ! nat (n - 1))"
      unfolding f'(2) using k by simp
    then have "file_lines f' ! nat (n - 1) =
                     (if take 6 (file_lines f ! nat (n - 1)) = ''- [ ] ''
                      then ''- [x] '' @ drop 6 (file_lines f ! nat (n - 1))
                      else file_lines f ! nat (n - 1))"
      by (simp only: replaceIncomplete_flip)
    moreover have "length (file_lines f') = length (file_lines f)" unfolding f'(2) by simp
    moreover have "\<forall>j. j \<noteq> nat (n - 1) \<longrightarrow> file_lines f' ! j = file_lines f ! j"
      unfolding f'(2) by simp
    ultimately show "\<exists>f'. disk_file ?s1 = Some f'
                 \<and> length (file_lines f') = length (file_lines f)
                 \<and> file_lines f' ! nat (n - 1) =
                     (if take 6 (file_lines f ! nat (n - 1)) = ''- [ ] ''
                      then ''- [x] '' @ drop 6 (file_lines f ! nat (n - 1))
                      else file_lines f ! nat (n - 1))
                 \<and> (\<forall>j. j \<noteq> nat (n - 1) \<longrightarrow> file_lines f' ! j = file_lines f ! j)"
      using f'(1) by blast
  qed
  have k: "\<exists>c. fst (countCompleted s) = Inr c
              \<and> fst (countCompleted ?s1) =
                  Inr (c + (case parseInt10 ident of
                              None \<Rightarrow> 0
                            | Some n \<Rightarrow>
                                if 0 \<le> n - 1 \<and> n - 1 < int (length (file_lines f))
                                   \<and> take 6 (file_lines f ! nat (n - 1)) = ''- [ ] '' then 1 else 0))"
    using markComplete_count[OF assms, of t1 ident] by blast
  show ?thesis
    apply (intro conjI)
    apply (rule tw(1))
    apply (rule c)
    apply (rule m)
    apply (rule o)
    apply (rule v)
    apply (rule k)
    done
qed

lemma parseInt10_examples:
  "parseInt10 ''2'' = Some 2" "parseInt10 ''9'' = Some 9" "parseInt10 ''x'' = None"
  "parseInt10 [CHR 0xA0, CHR ''3''] = Some 3"
  by (simp_all add: parseInt10_def isWhiteSpace_def isDigit_def digit_value_def digits_value_def)

theorem markComplete_idempotent_monotone_witness:
  "map_option data (disk_file (snd (markComplete 7 ''2'' (snd (markComplete 6 ''2'' example_prd)))))
     = Some (''# PRD'' @ [LF] @ ''- [x] one'' @ [LF] @ ''- [X] two'' @ [LF] @ ''- [ ] three'')
   \<and> map_option data (disk_file (snd (markComplete 6 ''2'' example_prd)))
     = Some (''# PRD'' @ [LF] @ ''- [x] one'' @ [LF] @ ''- [X] two'' @ [LF] @ ''- [ ] three'')
   \<and> fst (countCompleted example_prd) = Inr 1
   \<and> fst (countCompleted (snd (markComplete 6 ''2'' example_prd))) = Inr 2
   \<and> fst (countCompleted (snd (markComplete 7 ''2'' (snd (markComplete 6 ''2'' example_prd))))) = Inr 2
   \<and> disk_file (snd (markComplete 6 ''9'' example_prd)) = disk_file example_prd
   \<and> map_option data (disk_file (snd (markComplete 6 ''1'' example_prd)))
     = Some (''# PRD'' @ [LF] @ ''- [ ] one'' @ [LF] @ ''- [X] two'' @ [LF] @ ''- [ ] three'')
   \<and> fst (countCompleted (snd (markComplete 6 ''1'' example_prd))) = Inr 1"
proof -
  let ?f = "\<lparr>data = ''# PRD'' @ [CR, LF] @ ''- [ ] one'' @ [LF] @ ''- [X] two'' @ [LF] @ ''- [ ] three'',
                     mtimeMs = 5\<rparr>"
  let ?f1 = "\<lparr>data = ''# PRD'' @ [LF] @ ''- [x] one'' @ [LF] @ ''- [X] two'' @ [LF] @ ''- [ ] three'',
                     mtimeMs = 6\<rparr>"
  let ?g = "\<lparr>data = ''# PRD'' @ [LF] @ ''- [ ] one'' @ [LF] @ ''- [X] two'' @ [LF] @ ''- [ ] three'',
                     mtimeMs = 6\<rparr>"
  note ev = file_lines_def readFileNormalized_def replace_cr_def completedTest_def toLowerCase_def
    replaceIncomplete_def
  have h1: "disk_file example_prd = Some ?f" by (simp add: example_prd_def)
  have h2: "cache_fresh example_prd" by (simp add: example_prd_def cache_fresh_def)
  have p1: "parseInt10 ''1'' = Some 1"
    by (simp add: parseInt10_def isWhiteSpace_def isDigit_def digit_value_def digits_value_def)
  have c0: "fst (countCompleted example_prd) = Inr 1"
    using countCompleted_fresh[OF h1 h2] by (simp add: ev)
  have m1: "markComplete 6 ''2'' example_prd = (Inr (), example_prd\<lparr>cache := None, disk_file := Some ?f1\<rparr>)"
    using markComplete_in_range[OF h1 parseInt10_examples(1), of 6] by (simp add: ev)
  have m0: "markComplete 6 ''1'' example_prd = (Inr (), example_prd\<lparr>cache := None, disk_file := Some ?g\<rparr>)"
    using markComplete_in_range[OF h1 p1, of 6] by (simp add: ev)
  have d1: "disk_file (example_prd\<lparr>cache := None, disk_file := Some ?f1\<rparr>) = Some ?f1" by simp
  have n1: "cache (example_prd\<lparr>cache := None, disk_file := Some ?f1\<rparr>) = None" by simp
  have d0: "disk_file (example_prd\<lparr>cache := None, disk_file := Some ?g\<rparr>) = Some ?g" by simp
  have n0: "cache (example_prd\<lparr>cache := None, disk_file := Some ?g\<rparr>) = None" by simp
  have c1: "fst (countCompleted (snd (markComplete 6 ''2'' example_prd))) = Inr 2"
    unfolding m1 snd_conv using countCompleted_no_cache[OF d1 n1] by (simp add: ev)
  have c2: "fst (countCompleted (snd (markComplete 6 ''1'' example_prd))) = Inr 1"
    unfolding m0 snd_conv using countCompleted_no_cache[OF d0 n0] by (simp add: ev)
  have m9: "disk_file (snd (markComplete 6 ''9'' example_prd)) = disk_file example_prd"
    using markComplete_out_of_range[OF h1 parseInt10_examples(2), of 6] by (simp add: ev)
  have e1: "map_option data (disk_file (snd (markComplete 6 ''2'' example_prd)))
     = Some (''# PRD'' @ [LF] @ ''- [x] one'' @ [LF] @ ''- [X] two'' @ [LF] @ ''- [ ] three'')"
    unfolding m1 by simp
  have e0: "map_option data (disk_file (snd (markComplete 6 ''1'' example_prd)))
     = Some (''# PRD'' @ [LF] @ ''- [ ] one'' @ [LF] @ ''- [X] two'' @ [LF] @ ''- [ ] three'')"
    unfolding m0 by simp
  have t: "map_option data (disk_file (snd (markComplete 7 ''2'' (snd (markComplete 6 ''2'' example_prd)))))
           = map_option data (disk_file (snd (markComplete 6 ''2'' example_prd)))"
      "fst (countCompleted (snd (markComplete 7 ''2'' (snd (markComplete 6 ''2'' example_prd)))))
           = fst (countCompleted (snd (markComplete 6 ''2'' example_prd)))"
    using markComplete_idempotent_monotone[OF h1 h2, of 7 "''2''" 6 "[]"] by blast+
  show ?thesis
    unfolding t using c0 c1 c2 m9 e1 e0 by simp
qed
section \<open>Properties of the orchestrator\<close>

subsection \<open>Worktree cleanup\<close>

lemma exec_eq:
  "exec E c s =
     (fst (E c (world s)),
      s\<lparr>world := snd (E c (world s)), trace := trace s @ [(c, fst (fst (E c (world s))))]\<rparr>)"
  by (simp add: exec_def split: prod.splits)

lemma probe_dirty_cases:
  "probe_dirty E d s =
     (if fst (fst (E (TestDir d) (world s)))
      then (fst (fst (E (Git d StatusPorcelain) (snd (E (TestDir d) (world s)))))
              \<and> grep_q_dot (snd (fst (E (Git d StatusPorcelain) (snd (E (TestDir d) (world s)))))),
            s\<lparr>world := snd (E (Git d StatusPorcelain) (snd (E (TestDir d) (world s)))),
              trace := trace s @ [(TestDir d, True),
                (Git d StatusPorcelain, fst (fst (E (Git d StatusPorcelain) (snd (E (TestDir d) (world s))))))]\<rparr>)
      else (False, s\<lparr>world := snd (E (TestDir d) (world s)), trace := trace s @ [(TestDir d, False)]\<rparr>))"
  by (simp add: probe_dirty_def exec_eq Let_def)

lemma probe_dirty_issued:
  "issued s (snd (probe_dirty E d s)) =
     (if fst (fst (E (TestDir d) (world s)))
      then [(TestDir d, True),
            (Git d StatusPorcelain, fst (fst (E (Git d StatusPorcelain) (snd (E (TestDir d) (world s))))))]
      else [(TestDir d, False)])"
  by (simp add: probe_dirty_cases issued_def)

lemma probe_dirty_detects:
  "fst (probe_dirty E d s) \<Longrightarrow>
     issued s (snd (probe_dirty E d s)) = [(TestDir d, True), (Git d StatusPorcelain, True)]"
  by (auto simp: probe_dirty_cases issued_def split: if_splits)

lemma cleanup_dirty:
  assumes "fst (probe_dirty E d s)"
  shows "world (cleanup_agent_worktree E cfg d b lf s) = world (snd (probe_dirty E d s))"
    and "issued s (cleanup_agent_worktree E cfg d b lf s) = [(TestDir d, True), (Git d StatusPorcelain, True)]"
    and "files (cleanup_agent_worktree E cfg d b lf s) =
           (case lf of None \<Rightarrow> files s
            | Some l \<Rightarrow> (files s)(l := files s l @ [''Worktree left in place due to uncommitted changes: '' @ d]))"
proof -
  obtain dirty s2 where p: "probe_dirty E d s = (dirty, s2)" by (cases "probe_dirty E d s")
  have dirty: "dirty" using assms p by simp
  have f: "files s2 = files s" using p by (auto simp: probe_dirty_cases split: if_splits)
  have i: "issued s s2 = [(TestDir d, True), (Git d StatusPorcelain, True)]"
    using probe_dirty_detects[OF assms] p by simp
  show "world (cleanup_agent_worktree E cfg d b lf s) = world (snd (probe_dirty E d s))"
    using p dirty by (simp add: cleanup_agent_worktree_def fappend_def split: option.splits)
  show "issued s (cleanup_agent_worktree E cfg d b lf s) = [(TestDir d, True), (Git d StatusPorcelain, True)]"
    using p dirty i by (simp add: cleanup_agent_worktree_def fappend_def issued_def split: option.splits)
  show "files (cleanup_agent_worktree E cfg d b lf s) =
           (case lf of None \<Rightarrow> files s
            | Some l \<Rightarrow> (files s)(l := files s l @ [''Worktree left in place due to uncommitted changes: '' @ d]))"
    using p dirty f by (simp add: cleanup_agent_worktree_def fappend_def split: option.splits)
qed

lemma cleanup_clean:
  assumes "\<not> fst (probe_dirty E d s)"
  shows "\<exists>r. issued s (cleanup_agent_worktree E cfg d b lf s) =
           issued s (snd (probe_dirty E d s)) @ [(Git (ORIGINAL_DIR cfg) (WorktreeRemove True d), r)]"
    and "files (cleanup_agent_worktree E cfg d b lf s) = files s"
  using assms
  by (auto simp: cleanup_agent_worktree_def probe_dirty_cases exec_eq issued_def Let_def split: if_splits)

lemma cleanup_issues_no_branch_delete:
  "(Git x (BranchDelete f br), r) \<notin> set (issued s (cleanup_agent_worktree E cfg d b lf s))"
proof (cases "fst (probe_dirty E d s)")
  case True
  then show ?thesis by (simp add: cleanup_dirty(2))
next
  case False
  obtain r' where "issued s (cleanup_agent_worktree E cfg d b lf s) =
           issued s (snd (probe_dirty E d s)) @ [(Git (ORIGINAL_DIR cfg) (WorktreeRemove True d), r')]"
    using cleanup_clean(1)[OF False] by blast
  then show ?thesis by (simp add: probe_dirty_issued)
qed

text \<open>
  Claim C5.  The test for uncommitted changes is \<open>git status --porcelain | grep -q .\<close> under
  \<open>pipefail\<close>, so it fails whenever git does, whatever git has printed.  For every
  environment: when the worktree directory exists and \<open>git status\<close> ends in failure, with
  any listing at all, \<open>cleanup_agent_worktree\<close> goes on to issue
  \<open>git worktree remove -f\<close> for that directory and writes nothing to the log.  A worktree
  with a long list of changed files is such a case: git is ended by \<open>SIGPIPE\<close> once
  \<open>grep -q\<close> has seen its first line.
\<close>

theorem cleanup_agent_worktree_removes_dirty:
  assumes "fst (fst (E (TestDir d) (world s)))"
    and "fst (E (Git d StatusPorcelain) (snd (E (TestDir d) (world s)))) = (False, listing)"
  shows "(\<exists>r. issued s (cleanup_agent_worktree E cfg d b lf s) =
              [(TestDir d, True), (Git d StatusPorcelain, False),
               (Git (ORIGINAL_DIR cfg) (WorktreeRemove True d), r)])
       \<and> files (cleanup_agent_worktree E cfg d b lf s) = files s"
proof -
  have p: "\<not> fst (probe_dirty E d s)"
    using assms by (simp add: probe_dirty_cases)
  have i: "issued s (snd (probe_dirty E d s)) = [(TestDir d, True), (Git d StatusPorcelain, False)]"
    using assms by (simp add: probe_dirty_issued)
  show ?thesis
    using cleanup_clean[OF p, of cfg b lf] unfolding i by simp
qed

theorem cleanup_agent_worktree_removes_dirty_witness:
  "map_of (sim_worktrees (world (shell0 repo_crowded))) ''/tmp/wt/agent-1'' = Some (''ralphy/agent-1-a'', True)
   \<and> fst (fst (sim (TestDir ''/tmp/wt/agent-1'') (world (shell0 repo_crowded))))
   \<and> fst (sim (Git ''/tmp/wt/agent-1'' StatusPorcelain)
            (snd (sim (TestDir ''/tmp/wt/agent-1'') (world (shell0 repo_crowded)))))
       = (False, ''?? notes.txt'' @ [LF])
   \<and> issued (shell0 repo_crowded)
        (cleanup_agent_worktree sim cfg0 ''/tmp/wt/agent-1'' ''ralphy/agent-1-a'' (Some (LogFile 1))
           (shell0 repo_crowded)) =
       [(TestDir ''/tmp/wt/agent-1'', True), (Git ''/tmp/wt/agent-1'' StatusPorcelain, False),
        (Git ''/repo'' (WorktreeRemove True ''/tmp/wt/agent-1''), True)]
   \<and> files (cleanup_agent_worktree sim cfg0 ''/tmp/wt/agent-1'' ''ralphy/agent-1-a'' (Some (LogFile 1))
        (shell0 repo_crowded)) = files (shell0 repo_crowded)
   \<and> sim_worktrees (world (cleanup_agent_worktree sim cfg0 ''/tmp/wt/agent-1'' ''ralphy/agent-1-a''
        (Some (LogFile 1)) (shell0 repo_crowded))) = []"
proof -
  have m: "map_of (sim_worktrees (world (shell0 repo_crowded))) ''/tmp/wt/agent-1'' = Some (''ralphy/agent-1-a'', True)"
    by code_simp
  have h1: "fst (fst (sim (TestDir ''/tmp/wt/agent-1'') (world (shell0 repo_crowded))))"
    by code_simp
  have h2: "fst (sim (Git ''/tmp/wt/agent-1'' StatusPorcelain)
            (snd (sim (TestDir ''/tmp/wt/agent-1'') (world (shell0 repo_crowded)))))
       = (False, ''?? notes.txt'' @ [LF])"
    by code_simp
  have i: "issued (shell0 repo_crowded)
        (cleanup_agent_worktree sim cfg0 ''/tmp/wt/agent-1'' ''ralphy/agent-1-a'' (Some (LogFile 1))
           (shell0 repo_crowded)) =
       [(TestDir ''/tmp/wt/agent-1'', True), (Git ''/tmp/wt/agent-1'' StatusPorcelain, False),
        (Git ''/repo'' (WorktreeRemove True ''/tmp/wt/agent-1''), True)]"
    by code_simp
  have w: "sim_worktrees (world (cleanup_agent_worktree sim cfg0 ''/tmp/wt/agent-1'' ''ralphy/agent-1-a''
        (Some (LogFile 1)) (shell0 repo_crowded))) = []"
    by code_simp
  have f: "files (cleanup_agent_worktree sim cfg0 ''/tmp/wt/agent-1'' ''ralphy/agent-1-a'' (Some (LogFile 1))
        (shell0 repo_crowded)) = files (shell0 repo_crowded)"
    using cleanup_agent_worktree_removes_dirty[OF h1 h2, of cfg0 "''ralphy/agent-1-a''" "Some (LogFile 1)"]
    by blast
  show ?thesis using m h1 h2 i w f by blast
qed

subsection \<open>Integration of a group\<close>


lemma merge_group_branches_trace:
  "\<exists>xs. trace (snd (merge_group_branches E cfg bs s)) = trace s @ xs
      \<and> snd (merge_group_branches E cfg bs s) =
          s\<lparr>world := world (snd (merge_group_branches E cfg bs s)),
            trace := trace (snd (merge_group_branches E cfg bs s)),
            console := console (snd (merge_group_branches E cfg bs s))\<rparr>
      \<and> (if fst (merge_group_branches E cfg bs s)
         then (\<exists>pre b post r. bs = pre @ b # post
                 \<and> xs = map (\<lambda>x. (Git (ORIGINAL_DIR cfg) (Merge x), True)) pre
                        @ [(Git (ORIGINAL_DIR cfg) (Merge b), False), (Git (ORIGINAL_DIR cfg) MergeAbort, r)])
         else xs = map (\<lambda>x. (Git (ORIGINAL_DIR cfg) (Merge x), True)) bs)"
proof (induction bs arbitrary: s)
  case Nil
  then show ?case by simp
next
  case (Cons b bs)
  let ?m = "fst (E (Git (ORIGINAL_DIR cfg) (Merge b)) (world s))"
  let ?s1 = "snd (exec E (Git (ORIGINAL_DIR cfg) (Merge b)) s)"
  show ?case
  proof (cases "fst ?m")
    case False
    show ?thesis
      using False by (simp add: exec_eq Let_def log_warn_def say_def)
  next
    case True
    obtain xs where xs: "trace (snd (merge_group_branches E cfg bs ?s1)) = trace ?s1 @ xs"
      and fr: "snd (merge_group_branches E cfg bs ?s1) =
          ?s1\<lparr>world := world (snd (merge_group_branches E cfg bs ?s1)),
            trace := trace (snd (merge_group_branches E cfg bs ?s1)),
            console := console (snd (merge_group_branches E cfg bs ?s1))\<rparr>"
      and sh: "if fst (merge_group_branches E cfg bs ?s1)
         then (\<exists>pre b post r. bs = pre @ b # post
                 \<and> xs = map (\<lambda>x. (Git (ORIGINAL_DIR cfg) (Merge x), True)) pre
                        @ [(Git (ORIGINAL_DIR cfg) (Merge b), False), (Git (ORIGINAL_DIR cfg) MergeAbort, r)])
         else xs = map (\<lambda>x. (Git (ORIGINAL_DIR cfg) (Merge x), True)) bs"
      using Cons.IH[of ?s1] by blast
    have eq: "merge_group_branches E cfg (b # bs) s = merge_group_branches E cfg bs ?s1"
      using True by (simp add: exec_eq Let_def)
    have t1: "trace ?s1 = trace s @ [(Git (ORIGINAL_DIR cfg) (Merge b), True)]"
      using True by (simp add: exec_eq)
    have fr': "snd (merge_group_branches E cfg bs ?s1) =
          s\<lparr>world := world (snd (merge_group_branches E cfg bs ?s1)),
            trace := trace (snd (merge_group_branches E cfg bs ?s1)),
            console := console (snd (merge_group_branches E cfg bs ?s1))\<rparr>"
      by (subst fr) (simp add: exec_eq)
    show ?thesis
    proof (cases "fst (merge_group_branches E cfg bs ?s1)")
      case False
      then show ?thesis unfolding eq using xs t1 sh fr' by auto
    next
      case t: True
      then obtain pre b' post r where p: "bs = pre @ b' # post"
          "xs = map (\<lambda>x. (Git (ORIGINAL_DIR cfg) (Merge x), True)) pre
                        @ [(Git (ORIGINAL_DIR cfg) (Merge b'), False), (Git (ORIGINAL_DIR cfg) MergeAbort, r)]"
        using sh by auto
      have "b # bs = (b # pre) @ b' # post" using p(1) by simp
      moreover have "(Git (ORIGINAL_DIR cfg) (Merge b), True) # xs =
            map (\<lambda>x. (Git (ORIGINAL_DIR cfg) (Merge x), True)) (b # pre)
                        @ [(Git (ORIGINAL_DIR cfg) (Merge b'), False), (Git (ORIGINAL_DIR cfg) MergeAbort, r)]"
        using p(2) by simp
      ultimately have "\<exists>pre b'' post r. b # bs = pre @ b'' # post
                 \<and> (Git (ORIGINAL_DIR cfg) (Merge b), True) # xs = map (\<lambda>x. (Git (ORIGINAL_DIR cfg) (Merge x), True)) pre
                        @ [(Git (ORIGINAL_DIR cfg) (Merge b''), False), (Git (ORIGINAL_DIR cfg) MergeAbort, r)]"
        by blast
      then show ?thesis unfolding eq using xs t1 t fr' by auto
    qed
  qed
qed

subsection \<open>What a step leaves alone\<close>


lemma same_vars_trans: "same_vars a b \<Longrightarrow> same_vars b c \<Longrightarrow> same_vars a c"
  unfolding same_vars_def
proof -
  assume b: "b = a\<lparr>world := world b, trace := trace b, files := files b, console := console b\<rparr>"
    and c: "c = b\<lparr>world := world c, trace := trace c, files := files c, console := console c\<rparr>"
  show "c = a\<lparr>world := world c, trace := trace c, files := files c, console := console c\<rparr>"
    by (subst c, subst b) simp
qed

lemma same_vars_fields:
  assumes "same_vars s s'"
  shows "BASE_BRANCH s' = BASE_BRANCH s" "ORIGINAL_BASE_BRANCH s' = ORIGINAL_BASE_BRANCH s"
    "integration_branches s' = integration_branches s" "iteration s' = iteration s"
    "total_input_tokens s' = total_input_tokens s" "total_output_tokens s' = total_output_tokens s"
    "batch_num s' = batch_num s" "completed_branches s' = completed_branches s"
    "group_completed_branches s' = group_completed_branches s"
proof -
  have e: "s' = s\<lparr>world := world s', trace := trace s', files := files s', console := console s'\<rparr>"
    using assms by (simp add: same_vars_def)
  show "BASE_BRANCH s' = BASE_BRANCH s" by (subst e) simp
  show "ORIGINAL_BASE_BRANCH s' = ORIGINAL_BASE_BRANCH s" by (subst e) simp
  show "integration_branches s' = integration_branches s" by (subst e) simp
  show "iteration s' = iteration s" by (subst e) simp
  show "total_input_tokens s' = total_input_tokens s" by (subst e) simp
  show "total_output_tokens s' = total_output_tokens s" by (subst e) simp
  show "batch_num s' = batch_num s" by (subst e) simp
  show "completed_branches s' = completed_branches s" by (subst e) simp
  show "group_completed_branches s' = group_completed_branches s" by (subst e) simp
qed

lemma same_vars_exec: "same_vars s (snd (exec E c s))"
  by (simp add: same_vars_def exec_eq)

lemma same_vars_say: "same_vars s (say m s)" "same_vars s (log_info m s)" "same_vars s (log_warn m s)"
  by (simp_all add: same_vars_def say_def log_info_def log_warn_def)

lemma same_vars_file_ops:
  "same_vars s (fwrite p l s)" "same_vars s (fappend p l s)" "same_vars s (fremove p s)"
  by (simp_all add: same_vars_def fwrite_def fappend_def fremove_def)


lemma same_vars_merge_group: "same_vars s (snd (merge_group_branches E cfg bs s))"
proof -
  have "snd (merge_group_branches E cfg bs s) =
          s\<lparr>world := world (snd (merge_group_branches E cfg bs s)),
            trace := trace (snd (merge_group_branches E cfg bs s)),
            console := console (snd (merge_group_branches E cfg bs s))\<rparr>"
    using merge_group_branches_trace[of E cfg bs s] by blast
  then show ?thesis unfolding same_vars_def
    by (metis (no_types, lifting) sh.simps(6,7) sh.surjective sh.update_convs(1,2,3,4) )
qed

lemma return_to_head_trace:
  "\<exists>xs. trace (return_to_head E cfg ch s) = trace s @ xs
      \<and> (\<forall>c \<in> set xs. \<exists>x r. c = (Git (ORIGINAL_DIR cfg) (Checkout x), r))
      \<and> console (return_to_head E cfg ch s) = console s
      \<and> files (return_to_head E cfg ch s) = files s
      \<and> same_vars s (return_to_head E cfg ch s)"
  by (auto simp: return_to_head_def exec_eq Let_def same_vars_def)

lemma merge_group_files: "files (snd (merge_group_branches E cfg bs s)) = files s"
  by (induction bs arbitrary: s) (auto simp: exec_eq Let_def log_warn_def say_def split: prod.splits)

lemma integrate_group_skipped:
  "\<not> (PRD_SOURCE cfg = ''yaml'' \<and> group_completed_branches s \<noteq> [] \<and> n > 1) \<Longrightarrow>
   integrate_group E cfg grp n s = s"
  by (auto simp: integrate_group_def)

text \<open>What \<open>integrate_group\<close> issues and leaves behind, path by path.\<close>

lemma integrate_group_paths:
  fixes E :: "'w env" and cfg :: config and grp :: string and n :: nat and s :: "'w rs"
  defines "dir \<equiv> ORIGINAL_DIR cfg" and "ib \<equiv> integration_branch_of grp"
  defines "s' \<equiv> integrate_group E cfg grp n s"
  assumes enter: "PRD_SOURCE cfg = ''yaml''" "group_completed_branches s \<noteq> []" "n > 1"
  shows "(issued s s' = [(Git dir (BranchCreate ib (BASE_BRANCH s)), False)] \<and> same_vars s s' \<and> files s' = files s)
       \<or> (\<exists>h r. issued s s' = [(Git dir (BranchCreate ib (BASE_BRANCH s)), True), (Git dir SymbolicRefHead, h),
                              (Git dir (Checkout ib), False), (Git dir (BranchDelete True ib), r)]
              \<and> same_vars s s' \<and> files s' = files s)
       \<or> (\<exists>h xs. issued s s' = [(Git dir (BranchCreate ib (BASE_BRANCH s)), True), (Git dir SymbolicRefHead, h),
                              (Git dir (Checkout ib), True)]
                    @ map (\<lambda>x. (Git dir (Merge x), True)) (group_completed_branches s) @ xs
              \<and> (\<forall>c \<in> set xs. \<exists>x r. c = (Git dir (Checkout x), r))
              \<and> BASE_BRANCH s' = ib \<and> integration_branches s' = integration_branches s @ [ib])
       \<or> (\<exists>h pre b post r xs r'.
              group_completed_branches s = pre @ b # post
              \<and> issued s s' = [(Git dir (BranchCreate ib (BASE_BRANCH s)), True), (Git dir SymbolicRefHead, h),
                              (Git dir (Checkout ib), True)]
                    @ map (\<lambda>x. (Git dir (Merge x), True)) pre
                    @ [(Git dir (Merge b), False), (Git dir MergeAbort, r)]
                    @ xs @ [(Git dir (BranchDelete True ib), r')]
              \<and> (\<forall>c \<in> set xs. \<exists>x r. c = (Git dir (Checkout x), r))
              \<and> same_vars s s' \<and> files s' = files s)"
proof -
  define s0 where "s0 = log_info (''Creating integration branch for group '' @ grp @ '': '' @ ib) s"
  define c where "c = fst (fst (exec E (Git dir (BranchCreate ib (BASE_BRANCH s0))) s0))"
  define s1 where "s1 = snd (exec E (Git dir (BranchCreate ib (BASE_BRANCH s0))) s0)"
  define h where "h = fst (exec E (Git dir SymbolicRefHead) s1)"
  define s2 where "s2 = snd (exec E (Git dir SymbolicRefHead) s1)"
  define k where "k = fst (fst (exec E (Git dir (Checkout ib)) s2))"
  define s3 where "s3 = snd (exec E (Git dir (Checkout ib)) s2)"
  define mf where "mf = fst (merge_group_branches E cfg (group_completed_branches s3) s3)"
  define s4 where "s4 = snd (merge_group_branches E cfg (group_completed_branches s3) s3)"
  define s5 where "s5 = return_to_head E cfg (chomp (snd h)) s4"
  define s6 where "s6 = snd (exec E (Git dir (BranchDelete True ib)) s5)"
  have b0: "BASE_BRANCH s0 = BASE_BRANCH s" by (simp add: s0_def log_info_def say_def)
  have t0: "trace s0 = trace s" "files s0 = files s" by (simp_all add: s0_def log_info_def say_def)
  have t1: "trace s1 = trace s @ [(Git dir (BranchCreate ib (BASE_BRANCH s)), c)]" "files s1 = files s"
    by (simp_all add: s1_def c_def exec_eq t0 b0)
  have t2: "trace s2 = trace s1 @ [(Git dir SymbolicRefHead, fst h)]" "files s2 = files s"
    by (simp_all add: s2_def h_def exec_eq t1)
  have t3: "trace s3 = trace s2 @ [(Git dir (Checkout ib), k)]" "files s3 = files s"
    by (simp_all add: s3_def k_def exec_eq t2)
  have v0: "same_vars s s0" unfolding s0_def by (rule same_vars_say)
  have v1: "same_vars s s1" unfolding s1_def by (rule same_vars_trans[OF v0 same_vars_exec])
  have v2: "same_vars s s2" unfolding s2_def by (rule same_vars_trans[OF v1 same_vars_exec])
  have v3: "same_vars s s3" unfolding s3_def by (rule same_vars_trans[OF v2 same_vars_exec])
  have g3: "group_completed_branches s3 = group_completed_branches s" using v3 by (rule same_vars_fields)
  have v4: "same_vars s3 s4" unfolding s4_def by (rule same_vars_merge_group)
  have f4: "files s4 = files s" unfolding s4_def by (simp add: merge_group_files t3)
  obtain xs where xs: "trace s5 = trace s4 @ xs" "\<forall>c \<in> set xs. \<exists>x r. c = (Git dir (Checkout x), r)"
      "files s5 = files s4" "same_vars s4 s5"
    using return_to_head_trace[of E cfg "chomp (snd h)" s4] unfolding s5_def dir_def by blast
  have v5: "same_vars s s5" by (rule same_vars_trans[OF same_vars_trans[OF v3 v4] xs(4)])
  have v6: "same_vars s s6" unfolding s6_def by (rule same_vars_trans[OF v5 same_vars_exec])
  have t6: "trace s6 = trace s5 @ [(Git dir (BranchDelete True ib), fst (fst (exec E (Git dir (BranchDelete True ib)) s5)))]"
      "files s6 = files s"
    by (simp_all add: s6_def exec_eq xs(3) f4)
  obtain ms where ms: "trace s4 = trace s3 @ ms"
      "if mf then (\<exists>pre b post r. group_completed_branches s = pre @ b # post
                 \<and> ms = map (\<lambda>x. (Git dir (Merge x), True)) pre
                        @ [(Git dir (Merge b), False), (Git dir MergeAbort, r)])
         else ms = map (\<lambda>x. (Git dir (Merge x), True)) (group_completed_branches s)"
    using merge_group_branches_trace[of E cfg "group_completed_branches s3" s3]
    unfolding s4_def mf_def dir_def g3 by blast
  have ent: "(PRD_SOURCE cfg = ''yaml'' \<and> group_completed_branches s \<noteq> [] \<and> n > 1) = True"
    using enter by simp
  have unf: "s' = (if c then
                    (if k then
                       (if \<not> mf then log_info (''Updated BASE_BRANCH to '' @ ib @ '' for next group'')
                            (s5\<lparr>BASE_BRANCH := ib, integration_branches := integration_branches s5 @ [ib]\<rparr>)
                        else log_warn (''Integration merge failed; next group will branch from current BASE_BRANCH (''
                                          @ BASE_BRANCH s6 @ '')'') s6)
                     else log_warn (''Could not checkout integration branch; next group will branch from current BASE_BRANCH (''
                                    @ BASE_BRANCH (snd (exec E (Git dir (BranchDelete True ib)) s3)) @ '')'')
                            (snd (exec E (Git dir (BranchDelete True ib)) s3)))
                   else log_warn (''Could not create integration branch; next group will branch from current BASE_BRANCH (''
                          @ BASE_BRANCH s1 @ '')'') s1)"
    unfolding s'_def integrate_group_def Let_def split_beta ent if_True
      s6_def s5_def s4_def mf_def s3_def k_def s2_def h_def s1_def c_def s0_def dir_def ib_def
    by (rule refl)
  show ?thesis
  proof (cases c)
    case False
    then have e: "s' = log_warn (''Could not create integration branch; next group will branch from current BASE_BRANCH (''
                          @ BASE_BRANCH s1 @ '')'') s1" using unf by simp
    have "issued s s' = [(Git dir (BranchCreate ib (BASE_BRANCH s)), False)]"
      unfolding e using t1 False by (simp add: issued_def log_warn_def say_def)
    moreover have "same_vars s s'" unfolding e
      by (rule same_vars_trans[OF v1 same_vars_say(3)])
    moreover have "files s' = files s" unfolding e using t1 by (simp add: log_warn_def say_def)
    ultimately show ?thesis by blast
  next
    case c: True
    show ?thesis
    proof (cases k)
      case False
      define s3d where "s3d = snd (exec E (Git dir (BranchDelete True ib)) s3)"
      have e: "s' = log_warn (''Could not checkout integration branch; next group will branch from current BASE_BRANCH (''
                                    @ BASE_BRANCH s3d @ '')'') s3d"
        using unf c False by (simp add: s3d_def)
      have "issued s s' = [(Git dir (BranchCreate ib (BASE_BRANCH s)), True), (Git dir SymbolicRefHead, fst h),
                              (Git dir (Checkout ib), False),
                              (Git dir (BranchDelete True ib), fst (fst (exec E (Git dir (BranchDelete True ib)) s3)))]"
        unfolding e s3d_def using t1 t2 t3 c False by (simp add: issued_def log_warn_def say_def exec_eq)
      moreover have "same_vars s s'" unfolding e s3d_def
        by (rule same_vars_trans[OF same_vars_trans[OF v3 same_vars_exec] same_vars_say(3)])
      moreover have "files s' = files s" unfolding e s3d_def using t3 by (simp add: log_warn_def say_def exec_eq)
      ultimately show ?thesis by blast
    next
      case k: True
      show ?thesis
      proof (cases mf)
        case False
        then have e: "s' = log_info (''Updated BASE_BRANCH to '' @ ib @ '' for next group'')
                            (s5\<lparr>BASE_BRANCH := ib, integration_branches := integration_branches s5 @ [ib]\<rparr>)"
          using unf c k by simp
        have i5: "integration_branches s5 = integration_branches s" using v5 by (rule same_vars_fields)
        have "issued s s' = [(Git dir (BranchCreate ib (BASE_BRANCH s)), True), (Git dir SymbolicRefHead, fst h),
                              (Git dir (Checkout ib), True)]
                    @ map (\<lambda>x. (Git dir (Merge x), True)) (group_completed_branches s) @ xs"
          unfolding e using t1 t2 t3 ms xs(1) c k False by (simp add: issued_def log_info_def say_def)
        moreover have "BASE_BRANCH s' = ib \<and> integration_branches s' = integration_branches s @ [ib]"
          unfolding e using i5 by (simp add: log_info_def say_def)
        ultimately show ?thesis using xs(2) by blast
      next
        case True
        then have e: "s' = log_warn (''Integration merge failed; next group will branch from current BASE_BRANCH (''
                                          @ BASE_BRANCH s6 @ '')'') s6"
          using unf c k by simp
        obtain pre b post r where p: "group_completed_branches s = pre @ b # post"
            "ms = map (\<lambda>x. (Git dir (Merge x), True)) pre @ [(Git dir (Merge b), False), (Git dir MergeAbort, r)]"
          using ms(2) True by auto
        have "issued s s' = [(Git dir (BranchCreate ib (BASE_BRANCH s)), True), (Git dir SymbolicRefHead, fst h),
                              (Git dir (Checkout ib), True)]
                    @ map (\<lambda>x. (Git dir (Merge x), True)) pre
                    @ [(Git dir (Merge b), False), (Git dir MergeAbort, r)]
                    @ xs @ [(Git dir (BranchDelete True ib), fst (fst (exec E (Git dir (BranchDelete True ib)) s5)))]"
          unfolding e using t1 t2 t3 ms(1) p(2) xs(1) t6 c k by (simp add: issued_def log_warn_def say_def)
        moreover have "same_vars s s'" unfolding e by (rule same_vars_trans[OF v6 same_vars_say(3)])
        moreover have "files s' = files s" unfolding e using t6 by (simp add: log_warn_def say_def)
        ultimately show ?thesis using p(1) xs(2) by blast
      qed
    qed
  qed
qed

subsection \<open>A conflict while integrating a group\<close>

lemma after_group1_conflict:
  "(Git ''/repo'' (Merge ''ralphy/agent-2-b''), False)
     \<in> set (issued after_group1 (integrate_group sim cfg_yaml ''1'' 2 after_group1))"
  by code_simp

lemma after_group1_world:
  "map_of (sim_branches (world (integrate_group sim cfg_yaml ''1'' 2 after_group1))) ''ralphy/integration-group-1'' = None
   \<and> sim_head (world (integrate_group sim cfg_yaml ''1'' 2 after_group1)) = ''main''
   \<and> map_of (sim_branches (world (integrate_group sim cfg_yaml ''1'' 2 after_group1))) ''main'' = Some [0]"
  by code_simp

text \<open>
  Claim C2.  When a merge into the integration branch of a group fails, that merge is the
  last one tried and \<open>git merge --abort\<close> follows it at once; the script then checks out
  where it was and issues \<open>git branch -D\<close> on the integration branch as its last command;
  \<open>BASE_BRANCH\<close>, the list of integration branches and every other variable and temporary
  file of the run are as they were before the attempt.
\<close>

theorem integration_conflict_keeps_base:
  assumes "(Git (ORIGINAL_DIR cfg) (Merge b), False) \<in> set (issued s (integrate_group E cfg grp n s))"
  shows "BASE_BRANCH (integrate_group E cfg grp n s) = BASE_BRANCH s
       \<and> integration_branches (integrate_group E cfg grp n s) = integration_branches s
       \<and> same_vars s (integrate_group E cfg grp n s)
       \<and> files (integrate_group E cfg grp n s) = files s
       \<and> (\<exists>h pre post r xs r'.
              group_completed_branches s = pre @ b # post
              \<and> issued s (integrate_group E cfg grp n s) =
                  [(Git (ORIGINAL_DIR cfg) (BranchCreate (integration_branch_of grp) (BASE_BRANCH s)), True),
                   (Git (ORIGINAL_DIR cfg) SymbolicRefHead, h),
                   (Git (ORIGINAL_DIR cfg) (Checkout (integration_branch_of grp)), True)]
                  @ map (\<lambda>x. (Git (ORIGINAL_DIR cfg) (Merge x), True)) pre
                  @ [(Git (ORIGINAL_DIR cfg) (Merge b), False), (Git (ORIGINAL_DIR cfg) MergeAbort, r)]
                  @ xs @ [(Git (ORIGINAL_DIR cfg) (BranchDelete True (integration_branch_of grp)), r')]
              \<and> (\<forall>c \<in> set xs. \<exists>x r. c = (Git (ORIGINAL_DIR cfg) (Checkout x), r)))"
proof -
  let ?dir = "ORIGINAL_DIR cfg" and ?ib = "integration_branch_of grp"
  let ?s' = "integrate_group E cfg grp n s"
  have enter: "PRD_SOURCE cfg = ''yaml'' \<and> group_completed_branches s \<noteq> [] \<and> n > 1"
  proof (rule ccontr)
    assume "\<not> ?thesis"
    then have "?s' = s" by (rule integrate_group_skipped)
    then show False using assms by (simp add: issued_def)
  qed
  have paths: "(issued s ?s' = [(Git ?dir (BranchCreate ?ib (BASE_BRANCH s)), False)]
                 \<and> same_vars s ?s' \<and> files ?s' = files s)
     \<or> (\<exists>h r. issued s ?s' = [(Git ?dir (BranchCreate ?ib (BASE_BRANCH s)), True), (Git ?dir SymbolicRefHead, h),
                              (Git ?dir (Checkout ?ib), False), (Git ?dir (BranchDelete True ?ib), r)]
                 \<and> same_vars s ?s' \<and> files ?s' = files s)
     \<or> (\<exists>h xs. issued s ?s' = [(Git ?dir (BranchCreate ?ib (BASE_BRANCH s)), True), (Git ?dir SymbolicRefHead, h),
                              (Git ?dir (Checkout ?ib), True)]
                    @ map (\<lambda>x. (Git ?dir (Merge x), True)) (group_completed_branches s) @ xs
                 \<and> (\<forall>c \<in> set xs. \<exists>x r. c = (Git ?dir (Checkout x), r))
                 \<and> BASE_BRANCH ?s' = ?ib
                 \<and> integration_branches ?s' = integration_branches s @ [?ib])
     \<or> (\<exists>h pre b post r xs r'.
            group_completed_branches s = pre @ b # post
          \<and> issued s ?s' = [(Git ?dir (BranchCreate ?ib (BASE_BRANCH s)), True), (Git ?dir SymbolicRefHead, h),
                              (Git ?dir (Checkout ?ib), True)]
                    @ map (\<lambda>x. (Git ?dir (Merge x), True)) pre
                    @ [(Git ?dir (Merge b), False), (Git ?dir MergeAbort, r)]
                    @ xs @ [(Git ?dir (BranchDelete True ?ib), r')]
          \<and> (\<forall>c \<in> set xs. \<exists>x r. c = (Git ?dir (Checkout x), r))
          \<and> same_vars s ?s' \<and> files ?s' = files s)"
    using enter by (intro integrate_group_paths) simp_all
  from paths show ?thesis
  proof (elim disjE exE conjE)
    assume "issued s ?s' = [(Git ?dir (BranchCreate ?ib (BASE_BRANCH s)), False)]"
    then show ?thesis using assms by simp
  next
    fix h r :: bool
    assume "issued s ?s' = [(Git ?dir (BranchCreate ?ib (BASE_BRANCH s)), True), (Git ?dir SymbolicRefHead, h),
                              (Git ?dir (Checkout ?ib), False), (Git ?dir (BranchDelete True ?ib), r)]"
    then show ?thesis using assms by simp
  next
    fix h xs
    assume "issued s ?s' = [(Git ?dir (BranchCreate ?ib (BASE_BRANCH s)), True), (Git ?dir SymbolicRefHead, h),
                              (Git ?dir (Checkout ?ib), True)]
                    @ map (\<lambda>x. (Git ?dir (Merge x), True)) (group_completed_branches s) @ xs"
       and "\<forall>c \<in> set xs. \<exists>x r. c = (Git ?dir (Checkout x), r)"
    then show ?thesis using assms by auto
  next
    fix h pre b' post r xs r'
    assume c: "group_completed_branches s = pre @ b' # post"
        "issued s ?s' = [(Git ?dir (BranchCreate ?ib (BASE_BRANCH s)), True), (Git ?dir SymbolicRefHead, h),
                              (Git ?dir (Checkout ?ib), True)]
                    @ map (\<lambda>x. (Git ?dir (Merge x), True)) pre
                    @ [(Git ?dir (Merge b'), False), (Git ?dir MergeAbort, r)]
                    @ xs @ [(Git ?dir (BranchDelete True ?ib), r')]"
        "\<forall>c \<in> set xs. \<exists>x r. c = (Git ?dir (Checkout x), r)"
        "same_vars s ?s'" "files ?s' = files s"
    have "b = b'" using assms c(2,3) by auto
    then show ?thesis
      using c same_vars_fields(1,3)[OF c(4)] by blast
  qed
qed

theorem integration_conflict_keeps_base_witness:
  "(Git ''/repo'' (Merge ''ralphy/agent-2-b''), False)
       \<in> set (issued after_group1 (integrate_group sim cfg_yaml ''1'' 2 after_group1))
   \<and> BASE_BRANCH (integrate_group sim cfg_yaml ''1'' 2 after_group1) = ''main''
   \<and> integration_branches (integrate_group sim cfg_yaml ''1'' 2 after_group1) = []
   \<and> same_vars after_group1 (integrate_group sim cfg_yaml ''1'' 2 after_group1)
   \<and> files (integrate_group sim cfg_yaml ''1'' 2 after_group1) = files after_group1
   \<and> map_of (sim_branches (world (integrate_group sim cfg_yaml ''1'' 2 after_group1)))
         ''ralphy/integration-group-1'' = None
   \<and> map_of (sim_branches (world (integrate_group sim cfg_yaml ''1'' 2 after_group1))) ''main'' = Some [0]"
proof -
  have d: "ORIGINAL_DIR cfg_yaml = ''/repo''" by code_simp
  have b: "BASE_BRANCH after_group1 = ''main''" by code_simp
  have i: "integration_branches after_group1 = []" by code_simp
  have m: "(Git (ORIGINAL_DIR cfg_yaml) (Merge ''ralphy/agent-2-b''), False)
             \<in> set (issued after_group1 (integrate_group sim cfg_yaml ''1'' 2 after_group1))"
    unfolding d by (rule after_group1_conflict)
  show ?thesis
    using integration_conflict_keeps_base[OF m] after_group1_conflict after_group1_world
    unfolding b i by blast
qed

subsection \<open>Final reconciliation through the integration branches\<close>





subsection \<open>Final reconciliation without integration branches\<close>

text \<open>
  Claim C7.  Three completed branches, of which the second and the third conflict with the
  base, and an engine that resolves the conflict it is shown.  The merge of the second
  branch stops in a conflict and is left open, so the merge of the third is refused by git;
  both are collected.  The engine is then run once, on the conflict of the second branch,
  which it resolves.  At the turn of the third branch no file is unmerged any more, so the
  script merges it again without the engine, meets its conflict, aborts, and reports the
  branch as unresolved: the third branch never had a conflict-resolution pass.
\<close>

theorem final_reconciliation_later_conflict_unassisted:
  "(case final_reconciliation sim cfg0 three_done of
      Returned s' \<Rightarrow>
        issued three_done s' =
          [(Git ''/repo'' (Checkout ''main''), True),
           (Git ''/repo'' (Merge ''ralphy/agent-1-a''), True),
           (Git ''/repo'' (BranchDelete False ''ralphy/agent-1-a''), True),
           (Git ''/repo'' (Merge ''ralphy/agent-2-b''), False),
           (Git ''/repo'' (Merge ''ralphy/agent-3-c''), False),
           (Git ''/repo'' DiffUnmerged, True),
           (EngineResolve ''claude'' ''/repo'' (resolve_prompt ''conflict.txt''), True),
           (Git ''/repo'' DiffUnmerged, True),
           (Git ''/repo'' (BranchDelete False ''ralphy/agent-2-b''), True),
           (Git ''/repo'' DiffUnmerged, True),
           (Git ''/repo'' MergeAbort, False),
           (Git ''/repo'' (Merge ''ralphy/agent-3-c''), False),
           (Git ''/repo'' MergeAbort, True)]
        \<and> console s' =
          [Text ''Merging agent branches into main...'',
           Text ''Using AI to resolve 2 merge conflict(s)...'',
           Text ''  Resolving ralphy/agent-2-b... (AI resolved)'',
           Text ''  Resolving ralphy/agent-3-c... failed'',
           Text ''Some conflicts could not be resolved automatically:'',
           Text ''  * ralphy/agent-3-c'',
           Text ''Resolve conflicts manually: git merge <branch>'']
        \<and> sim_branches (world s') = [(''main'', [0, 1, 2]), (''ralphy/agent-3-c'', [0, 3])]
    | Exited s' \<Rightarrow> False)"
  by code_simp

end
